theory Spec2Isabelle
  imports Main "HOL-Library.Monad_Syntax"
begin

section \<open>Strings, bytes and runes\<close>

text \<open>
  A Go string is a sequence of bytes; it is modelled by \<^typ>\<open>string\<close>, a list of
  8-bit characters, and every offset is a byte offset, as in the source. The patterns of
  formatting.go are matched rune by rune: the regexp package decodes the UTF-8 text with
  \<open>utf8.DecodeRuneInString\<close>, which yields the rune and its width in bytes, and
  \<open>(RuneError, 1)\<close> for a byte that starts no valid encoding. A rune is a Go
  \<open>int32\<close>; it is modelled by an integer.
\<close>

type_synonym rune = int

definition byte :: "char \<Rightarrow> int" where
  "byte c = of_char c"

definition cont_byte :: "int \<Rightarrow> int \<Rightarrow> char \<Rightarrow> bool" where
  "cont_byte lo hi c \<longleftrightarrow> lo \<le> byte c \<and> byte c \<le> hi"

definition RuneError :: rune where
  "RuneError = 0xFFFD"

fun DecodeRuneInString :: "string \<Rightarrow> rune \<times> nat" where
  "DecodeRuneInString [] = (RuneError, 0)"
| "DecodeRuneInString (c0 # cs) =
     (let s0 = byte c0 in
      if s0 < 0x80 then (s0, 1)
      else if s0 < 0xC2 \<or> 0xF4 < s0 then (RuneError, 1)
      else
        let sz = (if s0 < 0xE0 then 2 else if s0 < 0xF0 then 3 else 4 :: nat);
            lo = (if s0 = 0xE0 then 0xA0 else if s0 = 0xF0 then 0x90 else 0x80);
            hi = (if s0 = 0xED then 0x9F else if s0 = 0xF4 then 0x8F else 0xBF)
        in if Suc (length cs) < sz then (RuneError, 1)
           else if \<not> cont_byte lo hi (cs ! 0) then (RuneError, 1)
           else if sz \<le> 2 then ((s0 mod 0x20) * 0x40 + byte (cs ! 0) mod 0x40, 2)
           else if \<not> cont_byte 0x80 0xBF (cs ! 1) then (RuneError, 1)
           else if sz \<le> 3 then
             ((s0 mod 0x10) * 0x1000 + (byte (cs ! 0) mod 0x40) * 0x40 + byte (cs ! 1) mod 0x40, 3)
           else if \<not> cont_byte 0x80 0xBF (cs ! 2) then (RuneError, 1)
           else ((s0 mod 0x08) * 0x40000 + (byte (cs ! 0) mod 0x40) * 0x1000
                 + (byte (cs ! 1) mod 0x40) * 0x40 + byte (cs ! 2) mod 0x40, 4))"

section \<open>Regular expressions of the regexp package\<close>

text \<open>
  The patterns are compiled by \<open>regexp.MustCompile\<close>, so they have the RE2 syntax and the
  leftmost-first (Perl-like) matching of Go's regexp package. The package is not part of
  the repository; this section models the part of it that the patterns use.

  A character class is a list of items: a single character, a range of characters, a range
  of code points (\<open>\x{00c0}-\x{ffff}\<close>) and the Perl classes \<open>\s\<close>, \<open>\S\<close>,
  \<open>\d\<close>, \<open>\w\<close>, which are ASCII-only in Go.
\<close>

datatype citem = C char | R char char | U rune rune | PerlS | PerlNotS | PerlD | PerlW

fun is_space :: "rune \<Rightarrow> bool" where
  "is_space r = (r = 9 \<or> r = 10 \<or> r = 12 \<or> r = 13 \<or> r = 32)"

fun is_digit :: "rune \<Rightarrow> bool" where
  "is_digit r = (48 \<le> r \<and> r \<le> 57)"

fun is_word :: "rune \<Rightarrow> bool" where
  "is_word r = (is_digit r \<or> (65 \<le> r \<and> r \<le> 90) \<or> (97 \<le> r \<and> r \<le> 122) \<or> r = 95)"

fun in_item :: "rune \<Rightarrow> citem \<Rightarrow> bool" where
  "in_item r (C a) = (r = byte a)"
| "in_item r (R a b) = (byte a \<le> r \<and> r \<le> byte b)"
| "in_item r (U a b) = (a \<le> r \<and> r \<le> b)"
| "in_item r PerlS = is_space r"
| "in_item r PerlNotS = (\<not> is_space r)"
| "in_item r PerlD = is_digit r"
| "in_item r PerlW = is_word r"

text \<open>
  The syntax tree of a pattern. \<open>Cls neg items\<close> is a bracket expression, negated when
  \<open>neg\<close> holds; \<open>Dot nl\<close> is \<open>.\<close>, which matches a newline only under the flag
  \<open>(?s)\<close>; \<open>BeginText\<close> and \<open>EndText\<close> are \<open>^\<close> and \<open>$\<close> (no pattern sets the
  multi-line flag); \<open>WordBoundary\<close> is \<open>\b\<close>; \<open>Star greedy r\<close> is \<open>r*\<close> or
  \<open>r*?\<close>; \<open>Grp n r\<close> is the n-th capturing group.
\<close>

datatype regex =
    Eps
  | Lit rune
  | Cls bool "citem list"
  | Dot bool
  | BeginText
  | EndText
  | WordBoundary
  | Cat regex regex
  | Alt regex regex
  | Star bool regex
  | Grp nat regex

text \<open>
  A thread of the matcher is a position in the text and the capture offsets recorded so
  far. \<open>ms s r t\<close> lists, in order of preference, the threads in which a match of \<open>r\<close>
  started from thread \<open>t\<close> can end: the alternatives of \<open>|\<close> left to right, one more
  iteration before stopping for a greedy star and the reverse for a lazy one. The head of
  the list is the match that a backtracking search finds first, which is the match that the
  regexp package reports. An iteration of a star that consumes nothing is dropped; the
  star bodies of the patterns below all consume at least one rune.
\<close>

type_synonym caps = "nat \<Rightarrow> (nat \<times> nat) option"
type_synonym thread = "nat \<times> caps"

definition step :: "string \<Rightarrow> nat \<Rightarrow> (rune \<Rightarrow> bool) \<Rightarrow> caps \<Rightarrow> thread list" where
  "step s i P cp =
     (if i < length s
      then (case DecodeRuneInString (drop i s) of (r, w) \<Rightarrow> if P r then [(i + w, cp)] else [])
      else [])"

text \<open>
  \<open>\b\<close> is an ASCII word boundary. A byte of a multi-byte encoding is not below 0x80,
  so looking at the single byte before and after the position decides it.
\<close>

definition word_before :: "string \<Rightarrow> nat \<Rightarrow> bool" where
  "word_before s i \<longleftrightarrow> 0 < i \<and> i \<le> length s \<and> is_word (byte (s ! (i - 1)))"

definition word_after :: "string \<Rightarrow> nat \<Rightarrow> bool" where
  "word_after s i \<longleftrightarrow> i < length s \<and> is_word (byte (s ! i))"

function (sequential) ms :: "string \<Rightarrow> regex \<Rightarrow> thread \<Rightarrow> thread list" where
  "ms s Eps t = [t]"
| "ms s (Lit c) (i, cp) = step s i (\<lambda>r. r = c) cp"
| "ms s (Cls neg items) (i, cp) = step s i (\<lambda>r. list_ex (in_item r) items \<noteq> neg) cp"
| "ms s (Dot nl) (i, cp) = step s i (\<lambda>r. nl \<or> r \<noteq> 10) cp"
| "ms s BeginText (i, cp) = (if i = 0 then [(i, cp)] else [])"
| "ms s EndText (i, cp) = (if i = length s then [(i, cp)] else [])"
| "ms s WordBoundary (i, cp) = (if word_before s i \<noteq> word_after s i then [(i, cp)] else [])"
| "ms s (Cat a b) t = concat (map (ms s b) (ms s a t))"
| "ms s (Alt a b) t = ms s a t @ ms s b t"
| "ms s (Star greedy a) (i, cp) =
     (let more = concat (map (\<lambda>(j, cp'). if i < j \<and> j \<le> length s then ms s (Star greedy a) (j, cp') else [])
                             (ms s a (i, cp)))
      in if greedy then more @ [(i, cp)] else (i, cp) # more)"
| "ms s (Grp n a) (i, cp) = map (\<lambda>(j, cp'). (j, cp'(n \<mapsto> (i, j)))) (ms s a (i, cp))"
  by pat_completeness auto
termination
  by (relation "inv_image (measure size <*lex*> measure id) (\<lambda>(s, r, (i, cp)). (r, length s - i))") auto


text \<open>
  An unanchored search tries the start positions from left to right, one rune at a time,
  and takes the preferred match at the first position that has one.
\<close>

function find_from :: "string \<Rightarrow> regex \<Rightarrow> nat \<Rightarrow> (nat \<times> thread) option" where
  "find_from s r i =
     (case ms s r (i, Map.empty) of
        t # _ \<Rightarrow> Some (i, t)
      | [] \<Rightarrow> if i < length s then find_from s r (i + snd (DecodeRuneInString (drop i s))) else None)"
  by pat_completeness auto
termination
proof (relation "measure (\<lambda>(s, r, i). length s - i)")
  fix s :: string and r :: regex and i :: nat
  assume less: "i < length s"
  then obtain c cs where "drop i s = c # cs"
    by (cases "drop i s") simp_all
  then have "0 < snd (DecodeRuneInString (drop i s))"
    by (simp add: Let_def)
  with less show "((s, r, i + snd (DecodeRuneInString (drop i s))), (s, r, i)) \<in> measure (\<lambda>(s, r, i). length s - i)"
    by simp
qed simp

declare find_from.simps [simp del]

text \<open>
  \<open>FindStringSubmatchIndex\<close> returns the offsets of the match and of every group, two
  per group, \<open>-1\<close> for a group that took no part in the match; group 0 is the whole match.
\<close>

fun NumSubexp :: "regex \<Rightarrow> nat" where
  "NumSubexp (Cat a b) = max (NumSubexp a) (NumSubexp b)"
| "NumSubexp (Alt a b) = max (NumSubexp a) (NumSubexp b)"
| "NumSubexp (Star g a) = NumSubexp a"
| "NumSubexp (Grp n a) = max n (NumSubexp a)"
| "NumSubexp _ = 0"

definition pair_of :: "(nat \<times> nat) option \<Rightarrow> int list" where
  "pair_of c = (case c of None \<Rightarrow> [-1, -1] | Some (a, b) \<Rightarrow> [int a, int b])"

definition FindStringSubmatchIndex :: "regex \<Rightarrow> string \<Rightarrow> int list option" where
  "FindStringSubmatchIndex re s =
     (case find_from s re 0 of
        None \<Rightarrow> None
      | Some (i, j, cp) \<Rightarrow>
          Some (concat (map (\<lambda>k. pair_of ((cp(0 \<mapsto> (i, j))) k)) [0..<Suc (NumSubexp re)])))"

text \<open>Derived forms: literals, sequences, \<open>r+\<close>, \<open>r?\<close> and counted repetition.\<close>

definition Ch :: "char \<Rightarrow> regex" where
  "Ch c = Lit (byte c)"

fun Str :: "string \<Rightarrow> regex" where
  "Str [] = Eps"
| "Str [c] = Ch c"
| "Str (c # cs) = Cat (Ch c) (Str cs)"

fun Seq :: "regex list \<Rightarrow> regex" where
  "Seq [] = Eps"
| "Seq [r] = r"
| "Seq (r # rs) = Cat r (Seq rs)"

fun Alts :: "regex list \<Rightarrow> regex" where
  "Alts [] = Eps"
| "Alts [r] = r"
| "Alts (r # rs) = Alt r (Alts rs)"

definition Plus :: "bool \<Rightarrow> regex \<Rightarrow> regex" where
  "Plus greedy r = Cat r (Star greedy r)"

definition Quest :: "bool \<Rightarrow> regex \<Rightarrow> regex" where
  "Quest greedy r = (if greedy then Alt r Eps else Alt Eps r)"

fun UpTo :: "nat \<Rightarrow> regex \<Rightarrow> regex" where
  "UpTo 0 r = Eps"
| "UpTo (Suc n) r = Alt (Cat r (UpTo n r)) Eps"

fun Repeat :: "nat \<Rightarrow> nat option \<Rightarrow> regex \<Rightarrow> regex" where
  "Repeat 0 None r = Star True r"
| "Repeat 0 (Some hi) r = UpTo hi r"
| "Repeat (Suc lo) hi r = Cat r (Repeat lo (map_option (\<lambda>h. h - 1) hi) r)"

section \<open>The patterns of formatting.go\<close>

abbreviation NL :: char where
  "NL \<equiv> CHR 0x0A"

abbreviation anyChar :: regex where
  "anyChar \<equiv> Cls False [PerlS, PerlNotS]"

definition patternBlockQuote :: regex where
  "patternBlockQuote =
     Cat BeginText
       (Alt (Seq [Star True (Ch CHR '' ''), Str ''>>>'', Plus True (Ch CHR '' ''), Grp 1 (Star True (Dot True))])
            (Seq [Star True (Ch CHR '' ''), Ch CHR ''>'', Plus True (Ch CHR '' ''),
                  Grp 2 (Cat (Star True (Cls True [C NL])) (Quest True (Ch NL)))]))"

definition patternChannelMention :: regex where
  "patternChannelMention = Seq [BeginText, Str ''<#'', Grp 1 (Plus True (Cls False [PerlD])), Ch CHR ''>'']"

definition patternRoleMention :: regex where
  "patternRoleMention = Seq [BeginText, Str ''<@&'', Grp 1 (Plus True (Cls False [PerlD])), Ch CHR ''>'']"

definition patternUserMention :: regex where
  "patternUserMention =
     Seq [BeginText, Str ''<@'', Quest True (Ch CHR ''!''), Grp 1 (Plus True (Cls False [PerlD])), Ch CHR ''>'']"

definition patternSpecialMention :: regex where
  "patternSpecialMention = Seq [BeginText, Ch CHR ''@'', Grp 1 (Alt (Str ''everyone'') (Str ''here''))]"

definition patternCustomEmoji :: regex where
  "patternCustomEmoji =
     Seq [BeginText, Ch CHR ''<'', Quest True (Grp 1 (Ch CHR ''a'')), Ch CHR '':'',
          Grp 2 (Plus True (Cls False [R CHR ''a'' CHR ''z'', R CHR ''A'' CHR ''Z'', C CHR ''_'', R CHR ''0'' CHR ''9''])),
          Ch CHR '':'', Grp 3 (Plus True (Cls False [PerlD])), Ch CHR ''>'']"

definition patternNamedEmoji :: regex where
  "patternNamedEmoji =
     Seq [BeginText, Ch CHR '':'',
          Grp 1 (Cat (Plus False (Cls True [PerlS, C CHR '':'']))
                     (Quest True (Cat (Str ''::skin-tone-'') (Cls False [PerlD])))),
          Ch CHR '':'']"

definition patternUnescapeEmoticon :: regex where
  "patternUnescapeEmoticon =
     Cat BeginText
       (Grp 1 (Seq [Lit 0xAF, Ch CHR 0x5C, Str ''_('', Lit 0x30C4, Str '')_/'', Lit 0xAF]))"

definition patternTimestamp :: regex where
  "patternTimestamp =
     Seq [BeginText, Str ''<t:'',
          Grp 1 (Cat (Quest True (Ch CHR ''-'')) (Repeat 1 (Some 17) (Cls False [PerlD]))),
          Quest True (Cat (Ch CHR '':'')
            (Grp 2 (Alts [Ch CHR ''t'', Ch CHR ''T'', Ch CHR ''d'', Ch CHR ''D'', Ch CHR ''f'', Ch CHR ''F'', Ch CHR ''R'']))),
          Ch CHR ''>'']"

definition urlBody :: regex where
  "urlBody =
     Seq [Str ''http'', Quest True (Ch CHR ''s''), Str ''://'',
          Plus True (Cls True [PerlS, C CHR ''<'']),
          Cls True [C CHR ''<'', C CHR ''.'', C CHR '','', C CHR '':'', C CHR '';'', C CHR 0x22, C CHR 0x27,
                    C CHR '')'', C CHR '']'', PerlS]]"

definition patternURL :: regex where
  "patternURL = Cat BeginText (Grp 1 urlBody)"

definition patternMaskedLink :: regex where
  "patternMaskedLink =
     Seq [BeginText,
          Grp 1 (Seq [Ch CHR ''['',
                      Star True (Alt (Seq [Ch CHR ''['', Star True (Cls True [C CHR '']'']), Ch CHR '']''])
                                     (Cls True [C CHR '']''])),
                      Ch CHR '']'',
                      Quest True (Cat (Star True (Cls True [C CHR ''[''])) (Ch CHR '']''))]),
          Ch CHR ''('', Star True (Cls False [PerlS]), Quest True (Ch CHR ''<''),
          Grp 2 (Star False (Alt (Cls True [PerlS, C CHR 0x5C]) (Cat (Ch CHR 0x5C) (Dot False)))),
          Quest True (Ch CHR ''>''),
          Quest True (Seq [Plus True (Cls False [PerlS]), Cls False [C CHR 0x27, C CHR 0x22],
                           Grp 3 (Star False anyChar), Cls False [C CHR 0x27, C CHR 0x22]]),
          Star True (Cls False [PerlS]), Ch CHR '')'']"

definition patternURLNoEmbed :: regex where
  "patternURLNoEmbed = Seq [BeginText, Ch CHR ''<'', Grp 1 urlBody, Ch CHR ''>'']"

definition patternSoftHyphen :: regex where
  "patternSoftHyphen = Cat BeginText (Lit 0xAD)"

definition patternSpoiler :: regex where
  "patternSpoiler = Seq [BeginText, Str ''||'', Grp 1 (Plus False anyChar), Str ''||'']"

definition patternListItem :: regex where
  "patternListItem =
     Seq [BeginText, Grp 1 (Star True (Cls True [PerlNotS, C CHR 0x0D, C NL])),
          Cls False [C CHR ''*'', C CHR ''-''], Plus True (Cls False [C CHR '' '', PerlS]),
          Grp 2 (Star True (Dot False)),
          Quest True (Grp 3 (Cls False [C NL, C CHR ''|'', C CHR ''$'']))]"

definition patternHeaderItem :: regex where
  "patternHeaderItem =
     Seq [BeginText,
          Grp 1 (Seq [Star True (Cls False [PerlS]), Grp 2 (Plus True (Ch CHR ''#'')),
                      Cls False [C CHR '' '', C CHR 0x09], Grp 3 (Star True (Dot False)),
                      Star True (Ch CHR '' '')]),
          Alt (Ch NL) EndText]"

definition patternBold :: regex where
  "patternBold =
     Seq [BeginText, Grp 1 (Seq [Str ''**'', Grp 2 (Plus False anyChar), Str ''**'']),
          Alt (Cls True [C CHR ''*'']) EndText]"

definition patternUnderline :: regex where
  "patternUnderline =
     Seq [BeginText, Grp 1 (Seq [Str ''__'', Grp 2 (Plus False anyChar), Str ''__'']),
          Alt (Cls True [C CHR ''_'']) EndText]"

definition patternStrikethrough :: regex where
  "patternStrikethrough =
     Seq [BeginText, Str ''~~'',
          Grp 1 (Alt (Cls False [PerlNotS])
                     (Seq [Cls False [PerlNotS], Star False anyChar, Cls False [PerlNotS]])),
          Str ''~~'']"

definition patternNewline :: regex where
  "patternNewline = Seq [BeginText, Star True (Cat (Ch NL) (Star True (Ch CHR '' ''))), Ch NL]"

definition patternText :: regex where
  "patternText =
     Seq [BeginText, Grp 1 (Plus False anyChar),
          Alt (Cls True [R CHR ''0'' CHR ''9'', R CHR ''A'' CHR ''Z'', R CHR ''a'' CHR ''z'', PerlS, U 0xC0 0xFFFF])
         (Alt (Ch NL)
         (Alt (Cat (Repeat 2 None (Ch CHR '' '')) (Ch NL))
         (Alt (Seq [Plus True (Cls False [PerlW]), Ch CHR '':'', Cls False [PerlNotS]])
              EndText)))]"

definition patternEscape :: regex where
  "patternEscape =
     Seq [BeginText, Ch CHR 0x5C,
          Grp 1 (Cls True [R CHR ''0'' CHR ''9'', R CHR ''A'' CHR ''Z'', R CHR ''a'' CHR ''z'', PerlS])]"

definition patternItalics :: regex where
  "patternItalics =
     Alt (Cat BeginText
            (Grp 1 (Seq [WordBoundary, Ch CHR ''_'',
                         Grp 2 (Plus False (Alt (Str ''__'')
                                           (Alt (Cat (Ch CHR 0x5C) anyChar)
                                                (Cls True [C CHR 0x5C, C CHR ''_''])))),
                         Ch CHR ''_'', WordBoundary])))
         (Seq [BeginText,
               Grp 3 (Seq [Ch CHR ''*'',
                           Grp 4 (Cat (Alt (Str ''**'') (Cls True [PerlS, C CHR ''*'']))
                                      (Star False
                                         (Alt (Str ''**'')
                                         (Alt (Cat (Plus True (Cls False [PerlS]))
                                                   (Alt (Cls True [C CHR ''*'', PerlS]) (Str ''**'')))
                                              (Cls True [PerlS, C CHR ''*'']))))),
                           Ch CHR ''*'']),
               Alt (Cls True [C CHR ''*'']) EndText])"

definition patternCodeBlock :: regex where
  "patternCodeBlock =
     Seq [BeginText, Str ''```'',
          Quest True (Cat (Quest True (Grp 1 (Plus False (Cls False [PerlW, C CHR ''+'', C CHR ''-'', C CHR ''.'']))))
                          (Grp 2 (Cat (Star True (Cls False [PerlS])) (Ch NL)))),
          Grp 3 (Cat (Cls True [C NL]) (Star False (Dot True))),
          Star True (Ch NL), Str ''```'']"

definition patternCodeInline :: regex where
  "patternCodeInline =
     Alt (Seq [BeginText, Str ''``'', Grp 1 (Star True (Cls True [C CHR 0x60])), Str ''``''])
         (Seq [BeginText, Ch CHR 0x60, Grp 2 (Star True (Cls True [C CHR 0x60])), Ch CHR 0x60])"


section \<open>Nodes\<close>

text \<open>
  A node of the tree is its variant with the fields of the Go struct, in the order of their
  declaration, and the list of its children. \<open>RootNode\<close> is the private \<open>node\<close>
  struct that \<open>Parse\<close> returns.
\<close>

datatype Variant =
    RootNode
  | TextNode string
  | BlockQuoteNode
  | CodeNode string string
  | SpoilerNode
  | URLNode string string
  | EmojiNode bool string string
  | ChannelMentionNode string
  | RoleMentionNode string
  | UserMentionNode string
  | SpecialMentionNode string
  | TimestampNode string string
  | HeaderNode int
  | BulletListNode int bool
  | BoldNode
  | UnderlineNode
  | ItalicsNode
  | StrikethroughNode

datatype Node = Node (variant: Variant) (Children: "Node list")

text \<open>
  The parser holds pointers to nodes of the tree under construction. A pointer is modelled
  by the position of the node: the indexes of the children to follow from the root. Children
  are only ever appended, so the position of a node never changes.
\<close>

type_synonym ref = "nat list"

function addChild :: "ref \<Rightarrow> Node \<Rightarrow> Node \<Rightarrow> Node" where
  "addChild [] c (Node v cs) = Node v (cs @ [c])"
| "addChild (i # p) c (Node v cs) =
     (if i < length cs then Node v (cs[i := addChild p c (cs ! i)]) else Node v cs)"
  by pat_completeness auto
termination
  by (relation "measure (\<lambda>(p, c, n). length p)") auto

fun node_at :: "Node \<Rightarrow> ref \<Rightarrow> Node option" where
  "node_at n [] = Some n"
| "node_at (Node v cs) (i # p) = (if i < length cs then node_at (cs ! i) p else None)"

definition new_child_ref :: "Node \<Rightarrow> ref \<Rightarrow> ref" where
  "new_child_ref rt p = p @ [case node_at rt p of None \<Rightarrow> 0 | Some n \<Rightarrow> length (Children n)]"

section \<open>Rules\<close>

text \<open>
  In a \<open>parseSpec\<close> returned by the action of a rule, \<open>node\<close> is the new node; in a
  \<open>parseSpec\<close> of the work-stack it is the reference of the parent. The field \<open>end\<close> is
  written \<open>end'\<close>. The field \<open>parser\<close> of \<open>match\<close> is never read and is left out.
\<close>

record 'n parseSpec =
  node :: 'n
  matchEnd :: int
  start :: int
  end' :: int

record match =
  match_str :: string
  groups :: "int list"

record rule =
  pattern :: regex
  block :: bool
  parser :: "match \<Rightarrow> Variant parseSpec option"
  blockQuote :: bool

text \<open>
  Indexing a slice and slicing a string panic out of range; \<open>None\<close> stands for the
  panic. The action of a rule is therefore a partial function.
\<close>

definition index :: "'a list \<Rightarrow> nat \<Rightarrow> 'a option" where
  "index xs i = (if i < length xs then Some (xs ! i) else None)"

definition slice :: "string \<Rightarrow> int \<Rightarrow> int \<Rightarrow> string option" where
  "slice s a b =
     (if 0 \<le> a \<and> a \<le> b \<and> b \<le> int (length s) then Some (take (nat b - nat a) (drop (nat a) s)) else None)"

definition group :: "match \<Rightarrow> nat \<Rightarrow> string option" where
  "group m i =
     do {
       start \<leftarrow> index (groups m) (i * 2);
       if start = - 1 then Some []
       else do {
         end \<leftarrow> index (groups m) (i * 2 + 1);
         slice (match_str m) start end
       }
     }"

definition match_start :: "match \<Rightarrow> nat \<Rightarrow> int option" where
  "match_start m i = index (groups m) (i * 2)"

definition match_end :: "match \<Rightarrow> nat \<Rightarrow> int option" where
  "match_end m i = index (groups m) (i * 2 + 1)"

record ParserOptions =
  EnableBlockQuote :: bool
  EnableMaskedLinks :: bool
  EnableMentions :: bool
  EnableForumMarkdown :: bool

definition DefaultParserOptions :: ParserOptions where
  "DefaultParserOptions =
     \<lparr>EnableBlockQuote = True, EnableMaskedLinks = False, EnableMentions = True, EnableForumMarkdown = False\<rparr>"

definition leaf :: "Variant \<Rightarrow> Variant parseSpec" where
  "leaf v = \<lparr>node = v, matchEnd = 0, start = 0, end' = 0\<rparr>"

definition simple_rule :: "regex \<Rightarrow> (match \<Rightarrow> Variant parseSpec option) \<Rightarrow> rule" where
  "simple_rule re f = \<lparr>pattern = re, block = False, parser = f, blockQuote = False\<rparr>"

definition softHyphenRule :: rule where
  "softHyphenRule = simple_rule patternSoftHyphen (\<lambda>m. Some (leaf (TextNode [])))"

definition escapeRule :: rule where
  "escapeRule = simple_rule patternEscape (\<lambda>m. do { c \<leftarrow> group m 1; Some (leaf (TextNode c)) })"

definition blockQuoteRule :: rule where
  "blockQuoteRule =
     \<lparr>pattern = patternBlockQuote, block = True,
      parser = (\<lambda>m. do {
         g1 \<leftarrow> group m 1;
         let i = (if length g1 > 0 then 1 else 2);
         s \<leftarrow> match_start m i;
         e \<leftarrow> match_end m i;
         Some \<lparr>node = BlockQuoteNode, matchEnd = 0, start = s, end' = e\<rparr>
       }),
      blockQuote = True\<rparr>"

definition codeBlockRule :: rule where
  "codeBlockRule =
     simple_rule patternCodeBlock
       (\<lambda>m. do { c \<leftarrow> group m 3; l \<leftarrow> group m 1; Some (leaf (CodeNode c l)) })"

definition codeInlineRule :: rule where
  "codeInlineRule =
     simple_rule patternCodeInline
       (\<lambda>m. do {
          g2 \<leftarrow> group m 2;
          let i = (if length g2 > 0 then 2 else 1);
          c \<leftarrow> group m i;
          Some (leaf (CodeNode c []))
        })"

definition spoilerRule :: rule where
  "spoilerRule =
     simple_rule patternSpoiler
       (\<lambda>m. do {
          s \<leftarrow> match_start m 1;
          e \<leftarrow> match_end m 1;
          Some \<lparr>node = SpoilerNode, matchEnd = 0, start = s, end' = e\<rparr>
        })"

definition maskedLinkRule :: rule where
  "maskedLinkRule =
     simple_rule patternMaskedLink
       (\<lambda>m. do {
          mask \<leftarrow> group m 1;
          mask \<leftarrow> slice mask 1 (int (length mask) - 1);
          u \<leftarrow> group m 2;
          Some (leaf (URLNode u mask))
        })"

definition urlNoEmbedRule :: rule where
  "urlNoEmbedRule = simple_rule patternURLNoEmbed (\<lambda>m. do { u \<leftarrow> group m 1; Some (leaf (URLNode u [])) })"

definition urlRule :: rule where
  "urlRule = simple_rule patternURL (\<lambda>m. do { u \<leftarrow> group m 1; Some (leaf (URLNode u [])) })"

definition customEmojiRule :: rule where
  "customEmojiRule =
     simple_rule patternCustomEmoji
       (\<lambda>m. do {
          a \<leftarrow> group m 1;
          t \<leftarrow> group m 2;
          i \<leftarrow> group m 3;
          Some (leaf (EmojiNode (length a > 0) t i))
        })"

definition namedEmojiRule :: rule where
  "namedEmojiRule =
     simple_rule patternNamedEmoji (\<lambda>m. do { emojiName \<leftarrow> group m 0; Some (leaf (TextNode emojiName)) })"

definition unescapeEmoticonRule :: rule where
  "unescapeEmoticonRule =
     simple_rule patternUnescapeEmoticon (\<lambda>m. do { c \<leftarrow> group m 1; Some (leaf (TextNode c)) })"

definition channelMentionRule :: rule where
  "channelMentionRule =
     simple_rule patternChannelMention (\<lambda>m. do { i \<leftarrow> group m 1; Some (leaf (ChannelMentionNode i)) })"

definition roleMentionRule :: rule where
  "roleMentionRule =
     simple_rule patternRoleMention (\<lambda>m. do { i \<leftarrow> group m 1; Some (leaf (RoleMentionNode i)) })"

definition userMentionRule :: rule where
  "userMentionRule =
     simple_rule patternUserMention (\<lambda>m. do { i \<leftarrow> group m 1; Some (leaf (UserMentionNode i)) })"

definition specialMentionRule :: rule where
  "specialMentionRule =
     simple_rule patternSpecialMention (\<lambda>m. do { i \<leftarrow> group m 1; Some (leaf (SpecialMentionNode i)) })"

definition timestampRule :: rule where
  "timestampRule =
     simple_rule patternTimestamp
       (\<lambda>m. do { st \<leftarrow> group m 1; su \<leftarrow> group m 2; Some (leaf (TimestampNode st su)) })"

definition headerItemRule :: rule where
  "headerItemRule =
     \<lparr>pattern = patternHeaderItem, block = True,
      parser = (\<lambda>m. do {
         g2 \<leftarrow> group m 2;
         let n = (if length g2 > 0 then int (length g2) else 1);
         s \<leftarrow> match_start m 3;
         e \<leftarrow> match_end m 3;
         me \<leftarrow> match_end m 1;
         Some \<lparr>node = HeaderNode n, matchEnd = me, start = s, end' = e\<rparr>
       }),
      blockQuote = False\<rparr>"

definition listItemRule :: rule where
  "listItemRule =
     simple_rule patternListItem
       (\<lambda>m. do {
          g1 \<leftarrow> group m 1;
          let level = (if length g1 > 0 then 2 else 1);
          g3 \<leftarrow> group m 3;
          s \<leftarrow> match_start m 2;
          e \<leftarrow> match_end m 2;
          Some \<lparr>node = BulletListNode level (length g3 > 0), matchEnd = 0, start = s, end' = e\<rparr>
        })"

definition newlineRule :: rule where
  "newlineRule =
     \<lparr>pattern = patternNewline, block = True, parser = (\<lambda>m. Some (leaf (TextNode [NL]))), blockQuote = False\<rparr>"

definition boldRule :: rule where
  "boldRule =
     simple_rule patternBold
       (\<lambda>m. do {
          s \<leftarrow> match_start m 2;
          e \<leftarrow> match_end m 2;
          me \<leftarrow> match_end m 1;
          Some \<lparr>node = BoldNode, matchEnd = me, start = s, end' = e\<rparr>
        })"

definition underlineRule :: rule where
  "underlineRule =
     simple_rule patternUnderline
       (\<lambda>m. do {
          s \<leftarrow> match_start m 2;
          e \<leftarrow> match_end m 2;
          me \<leftarrow> match_end m 1;
          Some \<lparr>node = UnderlineNode, matchEnd = me, start = s, end' = e\<rparr>
        })"

definition italicsRule :: rule where
  "italicsRule =
     simple_rule patternItalics
       (\<lambda>m. do {
          g4 \<leftarrow> group m 4;
          let content = (if length g4 > 0 then 4 else 2);
          g3 \<leftarrow> group m 3;
          let total = (if length g3 > 0 then 3 else 1);
          s \<leftarrow> match_start m content;
          e \<leftarrow> match_end m content;
          me \<leftarrow> match_end m total;
          Some \<lparr>node = ItalicsNode, matchEnd = me, start = s, end' = e\<rparr>
        })"

definition strikethroughRule :: rule where
  "strikethroughRule =
     simple_rule patternStrikethrough
       (\<lambda>m. do {
          s \<leftarrow> match_start m 1;
          e \<leftarrow> match_end m 1;
          Some \<lparr>node = StrikethroughNode, matchEnd = 0, start = s, end' = e\<rparr>
        })"

definition textRule :: rule where
  "textRule =
     simple_rule patternText
       (\<lambda>m. do {
          c \<leftarrow> group m 1;
          me \<leftarrow> match_end m 1;
          Some \<lparr>node = TextNode c, matchEnd = me, start = 0, end' = 0\<rparr>
        })"

section \<open>NewParser and Parse\<close>

record Parser =
  rules :: "rule list"

definition NewParser :: "ParserOptions option \<Rightarrow> Parser" where
  "NewParser options =
     (let options = (case options of None \<Rightarrow> DefaultParserOptions | Some opts \<Rightarrow> opts) in
      \<lparr>rules =
         [softHyphenRule, escapeRule]
         @ (if EnableBlockQuote options then [blockQuoteRule] else [])
         @ [codeBlockRule, codeInlineRule, spoilerRule]
         @ (if EnableMaskedLinks options then [maskedLinkRule] else [])
         @ [urlNoEmbedRule, urlRule, customEmojiRule, namedEmojiRule, unescapeEmoticonRule]
         @ (if EnableMentions options
            then [channelMentionRule, roleMentionRule, userMentionRule, specialMentionRule] else [])
         @ [timestampRule]
         @ (if EnableForumMarkdown options then [headerItemRule, listItemRule] else [])
         @ [newlineRule, boldRule, underlineRule, italicsRule, strikethroughRule, textRule]\<rparr>)"

text \<open>
  \<open>NoRuleMatched\<close> is the explicit panic of \<open>Parse\<close>, \<open>RuntimeError\<close> an index or a
  slice out of range.
\<close>

datatype panic = NoRuleMatched | RuntimeError

definition HasSuffix :: "string \<Rightarrow> string \<Rightarrow> bool" where
  "HasSuffix s suffix \<longleftrightarrow> length s \<ge> length suffix \<and> drop (length s - length suffix) s = suffix"

text \<open>The inner loop of \<open>Parse\<close>: the first rule that is not skipped and whose pattern matches.\<close>

fun select_rule :: "rule list \<Rightarrow> string \<Rightarrow> int \<Rightarrow> int \<Rightarrow> string \<Rightarrow> (rule \<times> int list) option" where
  "select_rule [] lastCapture bstart blockQuoteEnd inspectionSource = None"
| "select_rule (r # rs) lastCapture bstart blockQuoteEnd inspectionSource =
     (if block r \<and> lastCapture \<noteq> [] \<and> \<not> HasSuffix lastCapture [NL]
      then select_rule rs lastCapture bstart blockQuoteEnd inspectionSource
      else if blockQuote r \<and> bstart < blockQuoteEnd
      then select_rule rs lastCapture bstart blockQuoteEnd inspectionSource
      else case FindStringSubmatchIndex (pattern r) inspectionSource of
             None \<Rightarrow> select_rule rs lastCapture bstart blockQuoteEnd inspectionSource
           | Some g \<Rightarrow> Some (r, g))"

text \<open>The two conditions under which the inner loop passes over a rule without trying its pattern.\<close>

definition skipped :: "rule \<Rightarrow> string \<Rightarrow> int \<Rightarrow> int \<Rightarrow> bool" where
  "skipped r lc bstart bqe \<longleftrightarrow>
     (block r \<and> lc \<noteq> [] \<and> \<not> HasSuffix lc [NL]) \<or> (blockQuote r \<and> bstart < bqe)"

text \<open>
  The variables of \<open>Parse\<close>. The work-stack \<open>remainingParses\<close> is a list whose head is
  the top of the stack, that is, the last element of the Go slice.
\<close>

record pstate =
  remainingParses :: "ref parseSpec list"
  root :: Node
  lastCapture :: string
  blockQuoteEnd :: int

text \<open>One turn of the outer loop, for a popped span \<open>builder\<close> with \<open>start < end\<close>.\<close>

definition iteration :: "Parser \<Rightarrow> string \<Rightarrow> ref parseSpec \<Rightarrow> pstate \<Rightarrow> panic + pstate" where
  "iteration p source builder st =
     (case slice source (start builder) (end' builder) of
        None \<Rightarrow> Inl RuntimeError
      | Some inspectionSource \<Rightarrow>
          let offset = start builder in
          (case select_rule (rules p) (lastCapture st) (start builder) (blockQuoteEnd st) inspectionSource of
             None \<Rightarrow> Inl NoRuleMatched
           | Some (r, g) \<Rightarrow>
               if length g = 0 then Inl NoRuleMatched
               else
                 (case parser r \<lparr>match_str = inspectionSource, groups = g\<rparr> of
                    None \<Rightarrow> Inl RuntimeError
                  | Some newBuilder \<Rightarrow>
                      (case index g 1 of
                         None \<Rightarrow> Inl RuntimeError
                       | Some g1 \<Rightarrow>
                           let newMatchEnd = (if matchEnd newBuilder = 0 then g1 else matchEnd newBuilder);
                               parent = node builder;
                               child = new_child_ref (root st) parent;
                               root' = addChild parent (Node (node newBuilder) []) (root st);
                               matcherSourceEnd = newMatchEnd + offset;
                               stack1 = (if matcherSourceEnd \<noteq> end' builder
                                         then \<lparr>node = parent, matchEnd = 0, start = matcherSourceEnd,
                                               end' = end' builder\<rparr> # remainingParses st
                                         else remainingParses st);
                               recurse = (start newBuilder \<noteq> 0 \<or> end' newBuilder \<noteq> 0);
                               newStart = (if recurse then start newBuilder + offset else start newBuilder);
                               newEnd = (if recurse then end' newBuilder + offset else end' newBuilder);
                               stack2 = (if recurse
                                         then \<lparr>node = child, matchEnd = newMatchEnd, start = newStart,
                                               end' = newEnd\<rparr> # stack1
                                         else stack1);
                               blockQuoteEnd' = (if blockQuote r then newEnd else blockQuoteEnd st)
                           in
                           (case slice inspectionSource 0 newMatchEnd of
                              None \<Rightarrow> Inl RuntimeError
                            | Some lc \<Rightarrow>
                                Inr \<lparr>remainingParses = stack2, root = root', lastCapture = lc,
                                     blockQuoteEnd = blockQuoteEnd'\<rparr>)))))"

text \<open>
  The outer loop. Nothing in the loop itself bounds the number of turns for an arbitrary
  rule table, so the loop is a partial function: \<open>None\<close> means that it does not return.
\<close>

partial_function (option) parse_loop :: "Parser \<Rightarrow> string \<Rightarrow> pstate \<Rightarrow> (panic + Node) option" where
  "parse_loop p source st =
     (case remainingParses st of
        [] \<Rightarrow> Some (Inr (root st))
      | builder # rest \<Rightarrow>
          if start builder \<ge> end' builder then Some (Inr (root st))
          else (case iteration p source builder (st\<lparr>remainingParses := rest\<rparr>) of
                  Inl e \<Rightarrow> Some (Inl e)
                | Inr st' \<Rightarrow> parse_loop p source st'))"

declare parse_loop.simps [code]

definition Parse :: "Parser \<Rightarrow> string \<Rightarrow> (panic + Node) option" where
  "Parse p source =
     parse_loop p source
       \<lparr>remainingParses =
          (if length source > 0 then [\<lparr>node = [], matchEnd = 0, start = 0, end' = int (length source)\<rparr>] else []),
        root = Node RootNode [], lastCapture = [], blockQuoteEnd = 0\<rparr>"

section \<open>Notions used in the statements\<close>

text \<open>
  A pattern is anchored when every match has to begin with \<open>^\<close>. All the patterns of
  formatting.go are.
\<close>

fun anchored :: "regex \<Rightarrow> bool" where
  "anchored BeginText = True"
| "anchored (Cat a b) = anchored a"
| "anchored (Alt a b) = (anchored a \<and> anchored b)"
| "anchored (Grp n a) = anchored a"
| "anchored _ = False"

text \<open>The characters that the class of the escape pattern excludes besides white space.\<close>

definition alphanumeric :: "rune \<Rightarrow> bool" where
  "alphanumeric c \<longleftrightarrow> (48 \<le> c \<and> c \<le> 57) \<or> (65 \<le> c \<and> c \<le> 90) \<or> (97 \<le> c \<and> c \<le> 122)"

text \<open>A digit string: bytes that are ASCII digits, as \<open>\d\<close> matches them.\<close>

definition digits :: "string \<Rightarrow> bool" where
  "digits d \<longleftrightarrow> list_all (\<lambda>c. is_digit (byte c)) d"

text \<open>
  The least number of bytes that a match of a pattern consumes, and the groups that occur
  in a pattern.
\<close>

fun minlen :: "regex \<Rightarrow> nat" where
  "minlen (Lit c) = 1"
| "minlen (Cls neg items) = 1"
| "minlen (Dot nl) = 1"
| "minlen (Cat a b) = minlen a + minlen b"
| "minlen (Alt a b) = min (minlen a) (minlen b)"
| "minlen (Grp n a) = minlen a"
| "minlen _ = 0"

fun grps :: "regex \<Rightarrow> nat set" where
  "grps (Cat a b) = grps a \<union> grps b"
| "grps (Alt a b) = grps a \<union> grps b"
| "grps (Star g a) = grps a"
| "grps (Grp n a) = insert n (grps a)"
| "grps _ = {}"

text \<open>
  The offsets and the text of a group, read from the captures of a thread as the accessors
  of \<open>match\<close> read them from the offsets array; \<open>caps_in cp j\<close>: every capture is a
  range that ends at or before \<open>j\<close>.
\<close>

definition cap_start :: "caps \<Rightarrow> nat \<Rightarrow> int" where
  "cap_start cp k = (case cp k of None \<Rightarrow> - 1 | Some (a, b) \<Rightarrow> int a)"

definition cap_end :: "caps \<Rightarrow> nat \<Rightarrow> int" where
  "cap_end cp k = (case cp k of None \<Rightarrow> - 1 | Some (a, b) \<Rightarrow> int b)"

definition cap_text :: "string \<Rightarrow> caps \<Rightarrow> nat \<Rightarrow> string" where
  "cap_text w cp k = (case cp k of None \<Rightarrow> [] | Some (a, b) \<Rightarrow> take (b - a) (drop a w))"

definition caps_in :: "caps \<Rightarrow> nat \<Rightarrow> bool" where
  "caps_in cp j \<longleftrightarrow> (\<forall>k a b. cp k = Some (a, b) \<longrightarrow> a \<le> b \<and> b \<le> j)"

text \<open>
  The text that the match of one turn consumes: \<open>inspectionSource[:newBuilder.matchEnd]\<close>,
  computed as the turn computes it.
\<close>

definition consumed :: "Parser \<Rightarrow> string \<Rightarrow> ref parseSpec \<Rightarrow> pstate \<Rightarrow> string option" where
  "consumed p source builder st =
     do {
       inspectionSource \<leftarrow> slice source (start builder) (end' builder);
       (r, g) \<leftarrow> select_rule (rules p) (lastCapture st) (start builder) (blockQuoteEnd st) inspectionSource;
       newBuilder \<leftarrow> parser r \<lparr>match_str = inspectionSource, groups = g\<rparr>;
       g1 \<leftarrow> index g 1;
       slice inspectionSource 0 (if matchEnd newBuilder = 0 then g1 else matchEnd newBuilder)
     }"

text \<open>
  The states of the loop of \<open>Parse\<close>, each with the text consumed by the most recent
  match, \<open>None\<close> before the first match. The first state is the one that \<open>Parse\<close> gives
  to the loop; a turn pops a non-empty span and runs \<open>iteration\<close>.
\<close>

inductive turns :: "Parser \<Rightarrow> string \<Rightarrow> string option \<Rightarrow> pstate \<Rightarrow> bool" for p source where
  initial: "turns p source None
            \<lparr>remainingParses =
               (if length source > 0 then [\<lparr>node = [], matchEnd = 0, start = 0, end' = int (length source)\<rparr>] else []),
             root = Node RootNode [], lastCapture = [], blockQuoteEnd = 0\<rparr>"
| turn: "turns p source h st \<Longrightarrow> remainingParses st = b # rest \<Longrightarrow> start b < end' b \<Longrightarrow>
         iteration p source b (st\<lparr>remainingParses := rest\<rparr>) = Inr st' \<Longrightarrow>
         consumed p source b (st\<lparr>remainingParses := rest\<rparr>) = Some c \<Longrightarrow>
         turns p source (Some c) st'"

section \<open>Anchored patterns\<close>

lemmas rule_defs = simple_rule_def softHyphenRule_def escapeRule_def blockQuoteRule_def
  codeBlockRule_def codeInlineRule_def spoilerRule_def maskedLinkRule_def urlNoEmbedRule_def urlRule_def
  customEmojiRule_def namedEmojiRule_def unescapeEmoticonRule_def channelMentionRule_def roleMentionRule_def
  userMentionRule_def specialMentionRule_def timestampRule_def headerItemRule_def listItemRule_def newlineRule_def
  boldRule_def underlineRule_def italicsRule_def strikethroughRule_def textRule_def

lemmas pattern_defs = patternSoftHyphen_def patternEscape_def patternBlockQuote_def patternCodeBlock_def
  patternCodeInline_def patternSpoiler_def patternMaskedLink_def patternURLNoEmbed_def patternURL_def urlBody_def
  patternCustomEmoji_def patternNamedEmoji_def patternUnescapeEmoticon_def patternChannelMention_def
  patternRoleMention_def patternUserMention_def patternSpecialMention_def patternTimestamp_def
  patternHeaderItem_def patternListItem_def patternNewline_def patternBold_def patternUnderline_def
  patternItalics_def patternStrikethrough_def patternText_def


lemma ms_anchored: "anchored r \<Longrightarrow> 0 < i \<Longrightarrow> ms s r (i, cp) = []"
  by (induction r arbitrary: cp) auto

lemma find_from_anchored_pos: "anchored r \<Longrightarrow> 0 < i \<Longrightarrow> find_from s r i = None"
proof (induction s r i rule: find_from.induct)
  case (1 s r i)
  have w: "i < length s \<Longrightarrow> 0 < i + snd (DecodeRuneInString (drop i s))"
    using 1(3) by simp
  show ?case
    using 1 w by (subst find_from.simps) (simp add: ms_anchored)
qed

lemma find_from_anchored:
  "anchored r \<Longrightarrow> find_from s r 0 = (case ms s r (0, Map.empty) of [] \<Rightarrow> None | t # _ \<Rightarrow> Some (0, t))"
proof -
  assume a: "anchored r"
  have "0 < length s \<Longrightarrow> 0 < snd (DecodeRuneInString (drop 0 s))"
    by (cases s) (simp_all add: Let_def)
  then show ?thesis
    using a by (subst find_from.simps) (auto split: list.splits simp: find_from_anchored_pos)
qed

lemma FindStringSubmatchIndex_anchored:
  "anchored re \<Longrightarrow> FindStringSubmatchIndex re s =
     (case ms s re (0, Map.empty) of
        [] \<Rightarrow> None
      | (j, cp) # _ \<Rightarrow> Some (concat (map (\<lambda>k. pair_of ((cp(0 \<mapsto> (0, j))) k)) [0..<Suc (NumSubexp re)])))"
  by (simp add: FindStringSubmatchIndex_def find_from_anchored split: list.splits)

section \<open>The outer loop, one turn at a time\<close>

lemma parse_loop_done: "remainingParses st = [] \<Longrightarrow> parse_loop p source st = Some (Inr (root st))"
  by (simp add: parse_loop.simps)

lemma parse_loop_turn:
  "remainingParses st = b # rest \<Longrightarrow> start b < end' b \<Longrightarrow>
   iteration p source b (st\<lparr>remainingParses := rest\<rparr>) = Inr st' \<Longrightarrow>
   parse_loop p source st = parse_loop p source st'"
  by (subst parse_loop.simps) simp

section \<open>What every match satisfies\<close>

lemma decode_width: "cs \<noteq> [] \<Longrightarrow> 0 < snd (DecodeRuneInString cs) \<and> snd (DecodeRuneInString cs) \<le> length cs"
  by (cases cs) (auto simp: Let_def Suc_le_eq)

lemma step_bounds:
  assumes "t' \<in> set (step s i P cp)"
  shows "snd t' = cp \<and> i < fst t' \<and> fst t' \<le> length s"
proof (cases "i < length s")
  case False
  with assms show ?thesis by (simp add: step_def)
next
  case True
  then have "drop i s \<noteq> []" by simp
  from decode_width [OF this] have w: "0 < snd (DecodeRuneInString (drop i s))"
    "snd (DecodeRuneInString (drop i s)) \<le> length s - i"
    by simp_all
  obtain r n where d: "DecodeRuneInString (drop i s) = (r, n)"
    by (cases "DecodeRuneInString (drop i s)")
  from assms True d have "t' = (i + n, cp)"
    by (cases "P r") (simp_all add: step_def del: DecodeRuneInString.simps)
  with w d True show ?thesis by simp
qed

lemma in_ms_Star:
  "t' \<in> set (ms s (Star g a) (i, cp)) \<longleftrightarrow>
     t' = (i, cp) \<or> (\<exists>j cp1. (j, cp1) \<in> set (ms s a (i, cp)) \<and> i < j \<and> j \<le> length s
                       \<and> t' \<in> set (ms s (Star g a) (j, cp1)))"
  by (subst ms.simps(10)) (auto simp add: Let_def simp del: ms.simps(10) split: if_splits)

lemma ms_pos:
  "t' \<in> set (ms s r t) \<Longrightarrow> fst t \<le> length s \<Longrightarrow> fst t + minlen r \<le> fst t' \<and> fst t' \<le> length s"
proof (induction s r t arbitrary: t' rule: ms.induct)
  case (9 s a b t)
  from "9.prems" "9.IH"(1) [of t'] "9.IH"(2) [of t'] show ?case
    by auto
next
  case (8 s a b t)
  from "8.prems" obtain m where m: "m \<in> set (ms s a t)" and t': "t' \<in> set (ms s b m)"
    by auto
  from "8.IH"(1) [OF m "8.prems"(2)] have 1: "fst t + minlen a \<le> fst m" "fst m \<le> length s"
    by simp_all
  from "8.IH"(2) [OF m t' 1(2)] 1 show ?case
    by simp
next
  case (10 s greedy a i cp)
  from in_ms_Star [THEN iffD1, OF "10.prems"(1)] consider "t' = (i, cp)"
    | j cp1 where "(j, cp1) \<in> set (ms s a (i, cp))" "i < j" "j \<le> length s" "t' \<in> set (ms s (Star greedy a) (j, cp1))"
    by blast
  then show ?case
  proof cases
    case 1
    with "10.prems" show ?thesis by simp
  next
    case 2
    from "10.IH"(2) [of "(j, cp1)" j cp1 t'] 2 show ?thesis
      by simp
  qed
qed (auto dest!: step_bounds split: if_splits simp del: ms.simps(10))

lemma ms_frame:
  "t' \<in> set (ms s r t) \<Longrightarrow> k \<notin> grps r \<Longrightarrow> snd t' k = snd t k"
proof (induction s r t arbitrary: t' rule: ms.induct)
  case (8 s a b t)
  from "8.prems" obtain m where m: "m \<in> set (ms s a t)" and t': "t' \<in> set (ms s b m)"
    by auto
  from "8.IH"(1) [OF m] "8.IH"(2) [OF m t'] "8.prems"(2) show ?case
    by simp
next
  case (10 s greedy a i cp)
  from in_ms_Star [THEN iffD1, OF "10.prems"(1)] consider "t' = (i, cp)"
    | j cp1 where "(j, cp1) \<in> set (ms s a (i, cp))" "i < j" "j \<le> length s" "t' \<in> set (ms s (Star greedy a) (j, cp1))"
    by blast
  then show ?case
  proof cases
    case 1
    then show ?thesis by simp
  next
    case 2
    from "10.IH"(1) [OF 2(1)] "10.IH"(2) [of "(j, cp1)" j cp1 t'] 2 "10.prems"(2) show ?thesis
      by simp
  qed
qed (auto dest!: step_bounds split: if_splits simp del: ms.simps(10))

lemma ms_caps:
  "t' \<in> set (ms s r t) \<Longrightarrow> fst t \<le> length s \<Longrightarrow>
   snd t' k = snd t k \<or> (\<exists>a b. snd t' k = Some (a, b) \<and> fst t \<le> a \<and> a \<le> b \<and> b \<le> fst t')"
proof (induction s r t arbitrary: t' rule: ms.induct)
  case (8 s a b t)
  from "8.prems" obtain m where m: "m \<in> set (ms s a t)" and t': "t' \<in> set (ms s b m)"
    by auto
  from ms_pos [OF m "8.prems"(2)] have 1: "fst t \<le> fst m" "fst m \<le> length s"
    by simp_all
  from ms_pos [OF t' 1(2)] have 2: "fst m \<le> fst t'"
    by simp
  from "8.IH"(1) [OF m "8.prems"(2)] "8.IH"(2) [OF m t' 1(2)] 1 2 show ?case
    by force
next
  case (10 s greedy a i cp)
  from in_ms_Star [THEN iffD1, OF "10.prems"(1)] consider "t' = (i, cp)"
    | j cp1 where "(j, cp1) \<in> set (ms s a (i, cp))" "i < j" "j \<le> length s" "t' \<in> set (ms s (Star greedy a) (j, cp1))"
    by blast
  then show ?case
  proof cases
    case 1
    then show ?thesis by simp
  next
    case 2
    from ms_pos [OF 2(4)] 2 have 3: "j \<le> fst t'"
      by simp
    from "10.IH"(1) [OF 2(1)] "10.IH"(2) [of "(j, cp1)" j cp1 t'] 2 3 "10.prems"(2) show ?thesis
      by force
  qed
next
  case (11 s n a i cp)
  from "11.prems" obtain j cp1 where m: "(j, cp1) \<in> set (ms s a (i, cp))" and t': "t' = (j, cp1(n \<mapsto> (i, j)))"
    by auto
  from ms_pos [OF m] "11.prems"(2) have "i \<le> j" by simp
  with "11.IH" [OF m] "11.prems"(2) t' show ?case
    by auto
qed (auto dest!: step_bounds split: if_splits simp del: ms.simps(10))


lemma pairs_length: "length (concat (map (\<lambda>k. pair_of (f k)) [0..<n])) = 2 * n"
  by (induction n) (auto simp: pair_of_def split: option.splits)

lemma pairs_nth:
  "k < n \<Longrightarrow> concat (map (\<lambda>k. pair_of (f k)) [0..<n]) ! (k * 2) = pair_of (f k) ! 0
         \<and> concat (map (\<lambda>k. pair_of (f k)) [0..<n]) ! (k * 2 + 1) = pair_of (f k) ! 1"
proof (induction n)
  case 0
  then show ?case by simp
next
  case (Suc n)
  have len: "length (pair_of (f n)) = 2"
    by (auto simp: pair_of_def split: option.splits)
  show ?case
  proof (cases "k < n")
    case True
    with Suc.IH show ?thesis
      by (simp add: nth_append pairs_length)
  next
    case False
    with Suc.prems have "k = n" by simp
    then show ?thesis
      by (simp add: nth_append pairs_length)
  qed
qed

lemma find_anchored_thread:
  assumes "anchored re" "FindStringSubmatchIndex re w = Some g"
  obtains j cp where "(j, cp) \<in> set (ms w re (0, Map.empty))"
    and "g = concat (map (\<lambda>k. pair_of ((cp(0 \<mapsto> (0, j))) k)) [0..<Suc (NumSubexp re)])"
  using assms by (auto simp: FindStringSubmatchIndex_anchored split: list.splits)

lemma groups_access:
  assumes g: "g = concat (map (\<lambda>k. pair_of (c k)) [0..<Suc n])" and k: "k \<le> n"
    and ok: "\<And>a b. c k = Some (a, b) \<Longrightarrow> a \<le> b \<and> b \<le> length w"
  shows "match_start \<lparr>match_str = w, groups = g\<rparr> k = Some (cap_start c k)"
    and "match_end \<lparr>match_str = w, groups = g\<rparr> k = Some (cap_end c k)"
    and "group \<lparr>match_str = w, groups = g\<rparr> k = Some (cap_text w c k)"
proof -
  from k have lt: "k < Suc n" by simp
  have len: "length g = 2 * Suc n"
    unfolding g by (rule pairs_length)
  from pairs_nth [OF lt, of c] have nth: "g ! (k * 2) = pair_of (c k) ! 0" "g ! (k * 2 + 1) = pair_of (c k) ! 1"
    unfolding g by simp_all
  from lt len have i: "k * 2 < length g" "k * 2 + 1 < length g"
    by simp_all
  show "match_start \<lparr>match_str = w, groups = g\<rparr> k = Some (cap_start c k)"
    using i nth by (auto simp: match_start_def index_def cap_start_def pair_of_def split: option.splits)
  show "match_end \<lparr>match_str = w, groups = g\<rparr> k = Some (cap_end c k)"
    using i nth by (auto simp: match_end_def index_def cap_end_def pair_of_def split: option.splits)
  show "group \<lparr>match_str = w, groups = g\<rparr> k = Some (cap_text w c k)"
  proof (cases "c k")
    case None
    with i nth show ?thesis
      by (simp add: group_def index_def cap_text_def pair_of_def)
  next
    case (Some ab)
    obtain a b where ab: "ab = (a, b)" by (cases ab)
    from ok [of a b] Some ab have "a \<le> b" "b \<le> length w" by simp_all
    with i nth Some ab show ?thesis
      by (simp add: group_def index_def cap_text_def pair_of_def slice_def)
  qed
qed


lemma matched:
  assumes a: "anchored re" and f: "FindStringSubmatchIndex re w = Some g"
  obtains j cp where "(j, cp) \<in> set (ms w re (0, Map.empty))"
    and "minlen re \<le> j" and "j \<le> length w"
    and "index g 1 = Some (int j)" and "g \<noteq> []"
    and "caps_in cp j"
    and "\<And>k. 1 \<le> k \<Longrightarrow> k \<le> NumSubexp re \<Longrightarrow>
           match_start \<lparr>match_str = w, groups = g\<rparr> k = Some (cap_start cp k)
         \<and> match_end \<lparr>match_str = w, groups = g\<rparr> k = Some (cap_end cp k)
         \<and> group \<lparr>match_str = w, groups = g\<rparr> k = Some (cap_text w cp k)"
    and "group \<lparr>match_str = w, groups = g\<rparr> 0 = Some (take j w)"
proof -
  obtain j cp where t: "(j, cp) \<in> set (ms w re (0, Map.empty))"
    and g: "g = concat (map (\<lambda>k. pair_of ((cp(0 \<mapsto> (0, j))) k)) [0..<Suc (NumSubexp re)])"
    by (rule find_anchored_thread [OF a f])
  from ms_pos [OF t] have pos: "minlen re \<le> j" "j \<le> length w"
    by simp_all
  have cin: "caps_in cp j"
    unfolding caps_in_def
  proof (intro allI impI)
    fix k a b assume "cp k = Some (a, b)"
    with ms_caps [OF t, of k] show "a \<le> b \<and> b \<le> j" by auto
  qed
  have ok: "(cp(0 \<mapsto> (0, j))) k = Some (a, b) \<Longrightarrow> a \<le> b \<and> b \<le> length w" for k a b
  proof (cases "k = 0")
    case True
    assume "(cp(0 \<mapsto> (0, j))) k = Some (a, b)"
    with True pos(2) show ?thesis by simp
  next
    case False
    assume "(cp(0 \<mapsto> (0, j))) k = Some (a, b)"
    with False have "cp k = Some (a, b)" by simp
    with cin have "a \<le> b" "b \<le> j" unfolding caps_in_def by blast+
    with pos(2) show ?thesis by simp
  qed
  have len: "length g = 2 * Suc (NumSubexp re)"
    unfolding g by (rule pairs_length)
  from pairs_nth [of 0 "Suc (NumSubexp re)" "\<lambda>k. (cp(0 \<mapsto> (0, j))) k"]
  have g1: "index g 1 = Some (int j)"
    unfolding g [symmetric] using len by (simp add: index_def pair_of_def)
  have gne: "g \<noteq> []"
    using len by auto
  have acc: "match_start \<lparr>match_str = w, groups = g\<rparr> k = Some (cap_start cp k)
         \<and> match_end \<lparr>match_str = w, groups = g\<rparr> k = Some (cap_end cp k)
         \<and> group \<lparr>match_str = w, groups = g\<rparr> k = Some (cap_text w cp k)"
    if "1 \<le> k" "k \<le> NumSubexp re" for k
  proof -
    have "\<And>a b. (cp(0 \<mapsto> (0, j))) k = Some (a, b) \<Longrightarrow> a \<le> b \<and> b \<le> length w"
      by (rule ok)
    from groups_access [OF g that(2) this] that(1) show ?thesis
      by (simp add: cap_start_def cap_end_def cap_text_def)
  qed
  have g0: "group \<lparr>match_str = w, groups = g\<rparr> 0 = Some (take j w)"
  proof -
    have okk: "\<And>a b. (cp(0 \<mapsto> (0, j))) 0 = Some (a, b) \<Longrightarrow> a \<le> b \<and> b \<le> length w"
      by (rule ok)
    have "group \<lparr>match_str = w, groups = g\<rparr> 0 = Some (cap_text w (cp(0 \<mapsto> (0, j))) 0)"
      by (rule groups_access(3) [OF g le0 okk])
    then show ?thesis
      by (simp add: cap_text_def)
  qed
  show thesis
    by (rule that [OF t pos g1 gne cin acc g0])
qed

section \<open>The inner loop\<close>

lemma select_rule_append:
  "select_rule (xs @ ys) lc b q w =
     (case select_rule xs lc b q w of None \<Rightarrow> select_rule ys lc b q w | Some x \<Rightarrow> Some x)"
  by (induction xs) (auto split: option.splits)

lemma select_rule_Cons:
  "select_rule (r # rs) lc b q w =
     (if skipped r lc b q then select_rule rs lc b q w
      else case FindStringSubmatchIndex (pattern r) w of
             None \<Rightarrow> select_rule rs lc b q w
           | Some g \<Rightarrow> Some (r, g))"
  by (simp add: skipped_def)

text \<open>
  C4. Rule priority is absolute. When a rule \<open>R1\<close> is not skipped and its pattern matches
  the window, the inner loop returns the result of \<open>R1\<close> unless a rule before \<open>R1\<close> already
  gave one; the rules after \<open>R1\<close> have no influence, whatever they match and however long
  their matches are.
\<close>

theorem rule_priority:
  assumes "\<not> skipped R1 lc b q" and "FindStringSubmatchIndex (pattern R1) w = Some g1"
  shows "select_rule (pre @ R1 # post) lc b q w =
           (case select_rule pre lc b q w of None \<Rightarrow> Some (R1, g1) | Some x \<Rightarrow> Some x)"
  using assms
  by (simp add: select_rule_append select_rule_Cons del: select_rule.simps split: option.splits)

text \<open>
  On a soft hyphen followed by \<open>abc\<close> the first rule matches two bytes and the last rule,
  the text rule, would match all five; the first rule is selected.
\<close>

theorem rule_priority_witness:
  "select_rule (rules (NewParser None)) [] 0 0 ([CHR 0xC2, CHR 0xAD] @ ''abc'') = Some (softHyphenRule, [0, 2])
   \<and> last (rules (NewParser None)) = textRule
   \<and> FindStringSubmatchIndex (pattern textRule) ([CHR 0xC2, CHR 0xAD] @ ''abc'') = Some [0, 5, 0, 5]"
proof -
  have sk: "\<not> skipped softHyphenRule [] 0 0"
    by (simp add: skipped_def)
  have m1: "FindStringSubmatchIndex (pattern softHyphenRule) ([CHR 0xC2, CHR 0xAD] @ ''abc'') = Some [0, 2]"
    by code_simp
  have m2: "FindStringSubmatchIndex (pattern textRule) ([CHR 0xC2, CHR 0xAD] @ ''abc'') = Some [0, 5, 0, 5]"
    by code_simp
  have "\<exists>post. rules (NewParser None) = [] @ softHyphenRule # post"
    by (simp add: NewParser_def)
  then obtain post where post: "rules (NewParser None) = [] @ softHyphenRule # post" ..
  have "select_rule (rules (NewParser None)) [] 0 0 ([CHR 0xC2, CHR 0xAD] @ ''abc'') = Some (softHyphenRule, [0, 2])"
    unfolding post using rule_priority [OF sk m1, of "[]" post] by simp
  moreover have "last (rules (NewParser None)) = textRule"
    by (simp add: NewParser_def)
  ultimately show ?thesis using m2 by simp
qed

lemma select_rule_sound:
  "select_rule rs lc b q w = Some (r, g) \<Longrightarrow>
   r \<in> set rs \<and> FindStringSubmatchIndex (pattern r) w = Some g \<and> \<not> skipped r lc b q"
  by (induction rs) (auto simp: skipped_def split: if_splits option.splits)

section \<open>Block rules and the last match\<close>

lemma iteration_consumed:
  "iteration p source b st = Inr st' \<Longrightarrow> consumed p source b st = Some (lastCapture st')"
  by (auto simp: iteration_def consumed_def Let_def split: option.splits if_splits prod.splits)

lemma turns_lastCapture:
  "turns p source h st \<Longrightarrow> lastCapture st = (case h of None \<Rightarrow> [] | Some c \<Rightarrow> c)"
proof (induction rule: turns.induct)
  case initial
  show ?case by simp
next
  case (turn h st b rest st' c)
  from iteration_consumed [OF turn.hyps(4)] turn.hyps(5) show ?case
    by simp
qed

lemma patterns_anchored:
  "list_all (\<lambda>re. anchored re \<and> 0 < minlen re)
     [patternSoftHyphen, patternEscape, patternBlockQuote, patternCodeBlock, patternCodeInline, patternSpoiler,
      patternMaskedLink, patternURLNoEmbed, patternURL, patternCustomEmoji, patternNamedEmoji,
      patternUnescapeEmoticon, patternChannelMention, patternRoleMention, patternUserMention,
      patternSpecialMention, patternTimestamp, patternHeaderItem, patternListItem, patternNewline,
      patternBold, patternUnderline, patternItalics, patternStrikethrough, patternText]"
  by (simp add: pattern_defs Plus_def Quest_def Ch_def)

lemma rules_anchored:
  "r \<in> set (rules (NewParser options)) \<Longrightarrow> anchored (pattern r) \<and> 0 < minlen (pattern r)"
  using patterns_anchored
  by (auto simp: NewParser_def Let_def rule_defs split: if_splits option.splits)

lemma consumed_nonempty:
  assumes c: "consumed (NewParser options) source b st = Some c" and b: "start b < end' b"
  shows "c \<noteq> []"
proof -
  from c obtain w r g sp g1 where w: "slice source (start b) (end' b) = Some w"
    and sel: "select_rule (rules (NewParser options)) (lastCapture st) (start b) (blockQuoteEnd st) w = Some (r, g)"
    and sp: "parser r \<lparr>match_str = w, groups = g\<rparr> = Some sp"
    and g1: "index g 1 = Some g1"
    and sl: "slice w 0 (if matchEnd sp = 0 then g1 else matchEnd sp) = Some c"
    by (auto simp: consumed_def split: Option.bind_splits prod.splits)
  from w b have wne: "w \<noteq> []"
    by (auto simp: slice_def split: if_splits)
  from select_rule_sound [OF sel] have r: "r \<in> set (rules (NewParser options))"
    and f: "FindStringSubmatchIndex (pattern r) w = Some g"
    by simp_all
  from rules_anchored [OF r] have a: "anchored (pattern r)" and m: "0 < minlen (pattern r)"
    by simp_all
  from matched [OF a f] obtain j where "minlen (pattern r) \<le> j" "index g 1 = Some (int j)"
    by metis
  with g1 m have "0 < g1" by simp
  with sl wne show ?thesis
    by (auto simp: slice_def split: if_splits)
qed

lemma turns_nonempty: "turns (NewParser options) source (Some c) st \<Longrightarrow> c \<noteq> []"
  by (erule turns.cases) (auto dest: consumed_nonempty)

lemma Parse_initial:
  "Parse p source = parse_loop p source
     \<lparr>remainingParses =
        (if length source > 0 then [\<lparr>node = [], matchEnd = 0, start = 0, end' = int (length source)\<rparr>] else []),
      root = Node RootNode [], lastCapture = [], blockQuoteEnd = 0\<rparr>"
  by (simp add: Parse_def)

text \<open>
  C5. Take any state that the loop of \<open>Parse\<close> reaches, with \<open>h\<close> the text consumed by
  the most recent match, and the turn that pops the span \<open>b\<close> there. The variable
  \<open>lastCapture\<close> holds that text, or is empty when no match has occurred yet; a text
  consumed by a match is never empty. If the rule that the turn selects is a block rule,
  then no match has occurred yet or the text consumed by the most recent match ends in a
  newline. The block rules of a rule table are the block quote rule, the forum header rule
  and the newline rule.
\<close>

theorem block_rule_needs_line_start:
  assumes "turns (NewParser options) source h st"
    and "remainingParses st = b # rest" and "start b < end' b"
    and "slice source (start b) (end' b) = Some w"
    and "select_rule (rules (NewParser options)) (lastCapture st) (start b) (blockQuoteEnd st) w = Some (r, g)"
    and "block r"
  shows "lastCapture st = (case h of None \<Rightarrow> [] | Some c \<Rightarrow> c)
       \<and> (h = None \<or> (\<exists>c. h = Some c \<and> c \<noteq> [] \<and> HasSuffix c [NL]))
       \<and> filter block (rules (NewParser (Some opts))) =
            (if EnableBlockQuote opts then [blockQuoteRule] else [])
            @ (if EnableForumMarkdown opts then [headerItemRule] else [])
            @ [newlineRule]"
proof -
  have lc: "lastCapture st = (case h of None \<Rightarrow> [] | Some c \<Rightarrow> c)"
    by (rule turns_lastCapture [OF assms(1)])
  from select_rule_sound [OF assms(5)] assms(6)
  have line: "lastCapture st = [] \<or> HasSuffix (lastCapture st) [NL]"
    by (auto simp: skipped_def)
  have hist: "h = None \<or> (\<exists>c. h = Some c \<and> c \<noteq> [] \<and> HasSuffix c [NL])"
  proof (cases h)
    case None
    then show ?thesis by simp
  next
    case (Some c)
    with assms(1) have "c \<noteq> []"
      by (auto dest: turns_nonempty)
    with Some lc line show ?thesis by simp
  qed
  have "filter block (rules (NewParser (Some opts))) =
        (if EnableBlockQuote opts then [blockQuoteRule] else [])
        @ (if EnableForumMarkdown opts then [headerItemRule] else [])
        @ [newlineRule]"
    by (simp add: NewParser_def Let_def rule_defs)
  with lc hist show ?thesis by simp
qed


text \<open>
  On the source \<open>a\n> hi\<close> the first turn consumes \<open>a\<close>; the second turn, on the
  window \<open>\n> hi\<close>, passes over the newline rule although its pattern matches, and the
  text rule consumes the newline; the third turn, on \<open>> hi\<close>, selects the block quote rule.
\<close>

theorem block_rule_needs_line_start_witness:
  "turns (NewParser None) (''a'' @ [NL] @ ''> hi'') (Some [NL])
     \<lparr>remainingParses = [\<lparr>node = [], matchEnd = 0, start = 2, end' = 6\<rparr>],
      root = Node RootNode [Node (TextNode ''a'') [], Node (TextNode [NL]) []],
      lastCapture = [NL], blockQuoteEnd = 0\<rparr>
   \<and> map_option (\<lambda>(r, g). (block r, g)) (select_rule (rules (NewParser None)) [NL] 2 0 ''> hi'')
       = Some (True, [0, 4, - 1, - 1, 2, 4])
   \<and> HasSuffix [NL] [NL]
   \<and> map_option (\<lambda>(r, g). (block r, g)) (select_rule (rules (NewParser None)) ''a'' 1 0 ([NL] @ ''> hi''))
       = Some (False, [0, 2, 0, 1])
   \<and> FindStringSubmatchIndex (pattern newlineRule) ([NL] @ ''> hi'') = Some [0, 1]"
proof -
  let ?p = "NewParser None"
  let ?src = "''a'' @ [NL] @ ''> hi''"
  let ?b0 = "\<lparr>node = [], matchEnd = 0, start = 0, end' = 6\<rparr> :: ref parseSpec"
  let ?b1 = "\<lparr>node = [], matchEnd = 0, start = 1, end' = 6\<rparr> :: ref parseSpec"
  let ?b2 = "\<lparr>node = [], matchEnd = 0, start = 2, end' = 6\<rparr> :: ref parseSpec"
  let ?st0 = "\<lparr>remainingParses = [?b0], root = Node RootNode [], lastCapture = [], blockQuoteEnd = 0\<rparr>"
  let ?st1 = "\<lparr>remainingParses = [?b1], root = Node RootNode [Node (TextNode ''a'') []],
               lastCapture = ''a'', blockQuoteEnd = 0\<rparr>"
  let ?st2 = "\<lparr>remainingParses = [?b2], root = Node RootNode [Node (TextNode ''a'') [], Node (TextNode [NL]) []],
               lastCapture = [NL], blockQuoteEnd = 0\<rparr>"
  have t0: "turns ?p ?src None ?st0"
    using turns.initial [of ?p ?src] by simp
  have i1: "iteration ?p ?src ?b0 (?st0\<lparr>remainingParses := []\<rparr>) = Inr ?st1"
    by code_simp
  have c1: "consumed ?p ?src ?b0 (?st0\<lparr>remainingParses := []\<rparr>) = Some ''a''"
    by code_simp
  have t1: "turns ?p ?src (Some ''a'') ?st1"
    by (rule turns.turn [OF t0 _ _ i1 c1]) simp_all
  have i2: "iteration ?p ?src ?b1 (?st1\<lparr>remainingParses := []\<rparr>) = Inr ?st2"
    by code_simp
  have c2: "consumed ?p ?src ?b1 (?st1\<lparr>remainingParses := []\<rparr>) = Some [NL]"
    by code_simp
  have t2: "turns ?p ?src (Some [NL]) ?st2"
    by (rule turns.turn [OF t1 _ _ i2 c2]) simp_all
  have sel: "map_option (\<lambda>(r, g). (block r, g)) (select_rule (rules ?p) [NL] 2 0 ''> hi'')
       = Some (True, [0, 4, - 1, - 1, 2, 4])"
    by code_simp
  then obtain r where r: "select_rule (rules ?p) [NL] 2 0 ''> hi'' = Some (r, [0, 4, - 1, - 1, 2, 4])"
    and blk: "block r"
    by (cases "select_rule (rules ?p) [NL] 2 0 ''> hi''") auto
  have sl: "slice ?src 2 6 = Some ''> hi''"
    by (simp add: slice_def)
  have mid: "map_option (\<lambda>(r, g). (block r, g)) (select_rule (rules ?p) ''a'' 1 0 ([NL] @ ''> hi''))
       = Some (False, [0, 2, 0, 1])"
    by code_simp
  have nl: "FindStringSubmatchIndex (pattern newlineRule) ([NL] @ ''> hi'') = Some [0, 1]"
    by code_simp
  from block_rule_needs_line_start [of None ?src "Some [NL]" ?st2 ?b2 "[]" "''> hi''" r "[0, 4, - 1, - 1, 2, 4]"]
    t2 r blk sl
  have "HasSuffix [NL] [NL]"
    by simp
  with t2 sel mid nl show ?thesis
    by simp
qed

section \<open>Empty spans\<close>

text \<open>
  C1. The claim is that an empty span is discarded and the loop goes on with the rest of
  the work-stack. The loop of the source leaves with \<open>break\<close> instead: when the popped span
  is empty, \<open>Parse\<close> returns the tree built so far, whatever is left on the work-stack.
\<close>

theorem parse_loop_breaks_on_empty_span:
  "end' b \<le> start b \<Longrightarrow> remainingParses st = b # rest \<Longrightarrow> parse_loop p source st = Some (Inr (root st))"
  by (simp add: parse_loop.simps)

text \<open>
  The third turn of the loop on the source \<open>**\n> **x\<close> matches the block quote rule on
  the window \<open>> \<close> and pushes the empty span 5..5 above the pending span 7..8 of the root;
  the loop then returns without parsing \<open>x\<close>.
\<close>

theorem parse_loop_breaks_on_empty_span_witness:
  "iteration (NewParser None) (''**'' @ [NL] @ ''> **x'')
     \<lparr>node = [0], matchEnd = 0, start = 3, end' = 5\<rparr>
     \<lparr>remainingParses = [\<lparr>node = [], matchEnd = 0, start = 7, end' = 8\<rparr>],
      root = Node RootNode [Node BoldNode [Node (TextNode [NL]) []]],
      lastCapture = [NL], blockQuoteEnd = 0\<rparr>
   = Inr \<lparr>remainingParses = [\<lparr>node = [0, 1], matchEnd = 2, start = 5, end' = 5\<rparr>,
                             \<lparr>node = [], matchEnd = 0, start = 7, end' = 8\<rparr>],
          root = Node RootNode [Node BoldNode [Node (TextNode [NL]) [], Node BlockQuoteNode []]],
          lastCapture = ''> '', blockQuoteEnd = 5\<rparr>
   \<and> parse_loop (NewParser None) (''**'' @ [NL] @ ''> **x'')
        \<lparr>remainingParses = [\<lparr>node = [0, 1], matchEnd = 2, start = 5, end' = 5\<rparr>,
                            \<lparr>node = [], matchEnd = 0, start = 7, end' = 8\<rparr>],
         root = Node RootNode [Node BoldNode [Node (TextNode [NL]) [], Node BlockQuoteNode []]],
         lastCapture = ''> '', blockQuoteEnd = 5\<rparr>
     = Some (Inr (Node RootNode [Node BoldNode [Node (TextNode [NL]) [], Node BlockQuoteNode []]]))"
proof -
  have turn: "iteration (NewParser None) (''**'' @ [NL] @ ''> **x'')
     \<lparr>node = [0], matchEnd = 0, start = 3, end' = 5\<rparr>
     \<lparr>remainingParses = [\<lparr>node = [], matchEnd = 0, start = 7, end' = 8\<rparr>],
      root = Node RootNode [Node BoldNode [Node (TextNode [NL]) []]],
      lastCapture = [NL], blockQuoteEnd = 0\<rparr>
   = Inr \<lparr>remainingParses = [\<lparr>node = [0, 1], matchEnd = 2, start = 5, end' = 5\<rparr>,
                             \<lparr>node = [], matchEnd = 0, start = 7, end' = 8\<rparr>],
          root = Node RootNode [Node BoldNode [Node (TextNode [NL]) [], Node BlockQuoteNode []]],
          lastCapture = ''> '', blockQuoteEnd = 5\<rparr>"
    by code_simp
  have "parse_loop (NewParser None) (''**'' @ [NL] @ ''> **x'')
        \<lparr>remainingParses = [\<lparr>node = [0, 1], matchEnd = 2, start = 5, end' = 5\<rparr>,
                            \<lparr>node = [], matchEnd = 0, start = 7, end' = 8\<rparr>],
         root = Node RootNode [Node BoldNode [Node (TextNode [NL]) [], Node BlockQuoteNode []]],
         lastCapture = ''> '', blockQuoteEnd = 5\<rparr>
     = Some (Inr (Node RootNode [Node BoldNode [Node (TextNode [NL]) [], Node BlockQuoteNode []]]))"
    using parse_loop_breaks_on_empty_span
      [of "\<lparr>node = [0, 1], matchEnd = 2, start = 5, end' = 5\<rparr>"
          "\<lparr>remainingParses = [\<lparr>node = [0, 1], matchEnd = 2, start = 5, end' = 5\<rparr>,
                            \<lparr>node = [], matchEnd = 0, start = 7, end' = 8\<rparr>],
         root = Node RootNode [Node BoldNode [Node (TextNode [NL]) [], Node BlockQuoteNode []]],
         lastCapture = ''> '', blockQuoteEnd = 5\<rparr>"
          "[\<lparr>node = [], matchEnd = 0, start = 7, end' = 8\<rparr>]"
          "NewParser None" "''**'' @ [NL] @ ''> **x''"]
    by simp
  with turn show ?thesis by simp
qed

text \<open>
  C2. The claim is that no part of the input is dropped. On the source \<open>**\n> **x\<close> the
  tree that \<open>Parse\<close> returns has no node for the final \<open>x\<close>: the loop has left at the empty
  span of the block quote. With one character inside the block quote the \<open>x\<close> is kept.
\<close>

theorem Parse_drops_text_after_empty_span:
  "Parse (NewParser None) (''**'' @ [NL] @ ''> **x'')
     = Some (Inr (Node RootNode [Node BoldNode [Node (TextNode [NL]) [], Node BlockQuoteNode []]]))
   \<and> Parse (NewParser None) (''**'' @ [NL] @ ''> a**x'')
     = Some (Inr (Node RootNode [Node BoldNode [Node (TextNode [NL]) [],
                                                 Node BlockQuoteNode [Node (TextNode ''a'') []]],
                                  Node (TextNode ''x'') []]))"
  by code_simp

section \<open>Escapes\<close>

lemma soft_hyphen_not_at_backslash: "FindStringSubmatchIndex patternSoftHyphen (CHR 0x5C # cs) = None"
  by (simp add: FindStringSubmatchIndex_anchored patternSoftHyphen_def step_def byte_def)

lemma escape_matches:
  assumes "cs \<noteq> []" "DecodeRuneInString cs = (c, length cs)" "\<not> alphanumeric c" "\<not> is_space c"
  shows "FindStringSubmatchIndex patternEscape (CHR 0x5C # cs) =
    Some [0, 1 + int (length cs), 1, 1 + int (length cs)]"
  using assms
  by (simp add: FindStringSubmatchIndex_anchored patternEscape_def step_def byte_def Ch_def alphanumeric_def pair_of_def)

text \<open>
  C7. Let \<open>cs\<close> be the bytes of one character \<open>c\<close> that is neither alphanumeric nor white
  space. Under every configuration the source made of a backslash and \<open>cs\<close> is matched as
  a whole by the escape rule, and \<open>Parse\<close> returns a root whose only child is the text node
  with content \<open>cs\<close>.
\<close>

theorem escape_parses_to_literal:
  assumes "cs \<noteq> []" "DecodeRuneInString cs = (c, length cs)" "\<not> alphanumeric c" "\<not> is_space c"
  shows "select_rule (rules (NewParser opts)) [] 0 0 (CHR 0x5C # cs)
           = Some (escapeRule, [0, 1 + int (length cs), 1, 1 + int (length cs)])
         \<and> Parse (NewParser opts) (CHR 0x5C # cs) = Some (Inr (Node RootNode [Node (TextNode cs) []]))"
proof -
  let ?src = "CHR 0x5C # cs"
  let ?b = "\<lparr>node = [], matchEnd = 0, start = 0, end' = int (length ?src)\<rparr>"
  let ?st = "\<lparr>remainingParses = [?b], root = Node RootNode [], lastCapture = [], blockQuoteEnd = 0\<rparr>"
  let ?st' = "\<lparr>remainingParses = [], root = Node RootNode [Node (TextNode cs) []], lastCapture = ?src, blockQuoteEnd = 0\<rparr>"
  have sel: "select_rule (rules (NewParser opts)) [] 0 0 ?src
     = Some (escapeRule, [0, 1 + int (length cs), 1, 1 + int (length cs)])"
    using soft_hyphen_not_at_backslash escape_matches [OF assms]
    by (simp add: NewParser_def Let_def softHyphenRule_def escapeRule_def simple_rule_def)
  have it: "iteration (NewParser opts) ?src ?b (?st\<lparr>remainingParses := []\<rparr>) = Inr ?st'"
    using sel
    by (simp add: iteration_def slice_def escapeRule_def simple_rule_def group_def index_def leaf_def new_child_ref_def)
  have "parse_loop (NewParser opts) ?src ?st = parse_loop (NewParser opts) ?src ?st'"
    by (rule parse_loop_turn [OF _ _ it]) simp_all
  also have "\<dots> = Some (Inr (Node RootNode [Node (TextNode cs) []]))"
    by (simp add: parse_loop_done)
  finally have "Parse (NewParser opts) ?src = Some (Inr (Node RootNode [Node (TextNode cs) []]))"
    by (simp add: Parse_def)
  with sel show ?thesis by simp
qed

theorem escape_parses_to_literal_witness:
  "DecodeRuneInString ''*'' = (42, length ''*'') \<and> \<not> alphanumeric 42 \<and> \<not> is_space 42
   \<and> Parse (NewParser None) [CHR 0x5C, CHR ''*''] = Some (Inr (Node RootNode [Node (TextNode ''*'') []]))"
proof -
  have d: "DecodeRuneInString ''*'' = (42, length ''*'')"
    by (simp add: byte_def)
  have a: "\<not> alphanumeric 42"
    by (simp add: alphanumeric_def)
  have w: "\<not> is_space 42"
    by simp
  from escape_parses_to_literal [OF _ d a w, of None] d a w show ?thesis
    by simp
qed

section \<open>Runs of ASCII characters\<close>

lemma decode_ascii: "byte c < 0x80 \<Longrightarrow> DecodeRuneInString (c # cs) = (byte c, 1)"
  by simp

lemma step_end: "drop i s = [] \<Longrightarrow> step s i P cp = []"
  by (simp add: step_def)

lemma step_ascii:
  "drop i s = c # cs \<Longrightarrow> byte c < 0x80 \<Longrightarrow> step s i P cp = (if P (byte c) then [(i + 1, cp)] else [])"
proof -
  assume d: "drop i s = c # cs" and c: "byte c < 0x80"
  from d have "i < length s" by (cases "i < length s") simp_all
  moreover from c have "DecodeRuneInString (c # cs) = (byte c, 1)" by (intro decode_ascii)
  ultimately show ?thesis using d by (simp add: step_def del: DecodeRuneInString.simps)
qed

lemma rev_upt_Suc_Suc: "rev [0..<Suc (Suc n)] = map Suc (rev [0..<Suc n]) @ [0]"
  by (metis map_Suc_upt rev.simps(2) rev_map upt_conv_Cons zero_less_Suc)

lemma star_run:
  assumes r: "\<And>t. ms s r t = step s (fst t) P (snd t)"
  shows "drop i s = d @ rest \<Longrightarrow> list_all (\<lambda>c. byte c < 0x80 \<and> P (byte c)) d \<Longrightarrow>
   rest = [] \<or> (byte (hd rest) < 0x80 \<and> \<not> P (byte (hd rest))) \<Longrightarrow>
   ms s (Star True r) (i, cp) = map (\<lambda>k. (i + k, cp)) (rev [0..<Suc (length d)])"
proof (induction d arbitrary: i)
  case Nil
  have "step s i P cp = []"
  proof (cases rest)
    case Nil
    with Nil.prems show ?thesis by (simp add: step_end)
  next
    case (Cons c cs)
    with Nil.prems show ?thesis by (simp add: step_ascii [of i s c cs])
  qed
  then show ?case
    by (subst ms.simps) (simp add: r del: ms.simps)
next
  case (Cons c d)
  from Cons.prems have dr: "drop i s = c # (d @ rest)" and c: "byte c < 0x80" "P (byte c)"
    and d: "list_all (\<lambda>c. byte c < 0x80 \<and> P (byte c)) d"
    by simp_all
  from dr have len: "i < length s" by (cases "i < length s") simp_all
  from dr have "drop (Suc i) s = d @ rest"
    by (metis drop_Suc list.sel(3) tl_drop)
  from Cons.IH [OF this d Cons.prems(3)]
  have ih: "ms s (Star True r) (Suc i, cp) = map (\<lambda>k. (Suc i + k, cp)) (rev [0..<Suc (length d)])" .
  have st: "step s i P cp = [(i + 1, cp)]"
    using step_ascii [OF dr c(1), of P cp] c(2) by simp
  show ?case
    using len ih
    by (subst ms.simps) (simp add: r st rev_upt_Suc_Suc comp_def del: upt_Suc ms.simps)
qed

lemma concat_only_top:
  "(\<And>k. k < n \<Longrightarrow> h k = []) \<Longrightarrow> concat (map h (rev [0..<Suc n])) = h n"
  by (simp add: rev_map [symmetric])


lemmas pattern_simps = FindStringSubmatchIndex_anchored step_def byte_def Ch_def Plus_def Quest_def pair_of_def

lemma before_mentions_fail:
  "FindStringSubmatchIndex patternSoftHyphen (CHR ''<'' # CHR ''@'' # t) = None"
  "FindStringSubmatchIndex patternEscape (CHR ''<'' # CHR ''@'' # t) = None"
  "FindStringSubmatchIndex patternBlockQuote (CHR ''<'' # CHR ''@'' # t) = None"
  "FindStringSubmatchIndex patternCodeBlock (CHR ''<'' # CHR ''@'' # t) = None"
  "FindStringSubmatchIndex patternCodeInline (CHR ''<'' # CHR ''@'' # t) = None"
  "FindStringSubmatchIndex patternSpoiler (CHR ''<'' # CHR ''@'' # t) = None"
  "FindStringSubmatchIndex patternMaskedLink (CHR ''<'' # CHR ''@'' # t) = None"
  "FindStringSubmatchIndex patternURLNoEmbed (CHR ''<'' # CHR ''@'' # t) = None"
  "FindStringSubmatchIndex patternURL (CHR ''<'' # CHR ''@'' # t) = None"
  "FindStringSubmatchIndex patternCustomEmoji (CHR ''<'' # CHR ''@'' # t) = None"
  "FindStringSubmatchIndex patternNamedEmoji (CHR ''<'' # CHR ''@'' # t) = None"
  "FindStringSubmatchIndex patternUnescapeEmoticon (CHR ''<'' # CHR ''@'' # t) = None"
  "FindStringSubmatchIndex patternChannelMention (CHR ''<'' # CHR ''@'' # t) = None"
  by (simp_all add: pattern_simps patternSoftHyphen_def patternEscape_def patternBlockQuote_def patternCodeBlock_def
      patternCodeInline_def patternSpoiler_def patternMaskedLink_def patternURLNoEmbed_def patternURL_def urlBody_def
      patternCustomEmoji_def patternNamedEmoji_def patternUnescapeEmoticon_def patternChannelMention_def)


lemma drop_run_nth:
  "drop i s = d @ rest \<Longrightarrow> k < length d \<Longrightarrow> drop (i + k) s = d ! k # (drop (Suc k) d @ rest)"
proof -
  assume a: "drop i s = d @ rest" and k: "k < length d"
  have "drop (i + k) s = drop k (drop i s)"
    by (simp add: add.commute)
  also have "\<dots> = drop k d @ rest"
    using a k by simp
  also have "\<dots> = d ! k # (drop (Suc k) d @ rest)"
    using k by (simp add: Cons_nth_drop_Suc)
  finally show ?thesis .
qed

lemma drop_run_end: "drop i s = d @ rest \<Longrightarrow> drop (i + length d) s = rest"
  by (metis add.commute append_eq_conv_conj drop_drop)

lemma grp_plus_run_then_lit:
  assumes r: "\<And>t. ms s r t = step s (fst t) P (snd t)"
    and dr: "drop i s = d @ c # rest" and ne: "d \<noteq> []"
    and run: "list_all (\<lambda>x. byte x < 0x80 \<and> P (byte x)) d"
    and c: "byte c < 0x80" "\<not> P (byte c)"
  shows "ms s (Cat (Grp n (Plus True r)) (Lit (byte c))) (i, cp)
         = [(i + length d + 1, cp(n \<mapsto> (i, i + length d)))]"
proof -
  from ne obtain x d' where d: "d = x # d'"
    by (cases d) auto
  from dr d have dx: "drop i s = x # (d' @ c # rest)"
    by simp
  from run d have x: "byte x < 0x80" "P (byte x)" and run': "list_all (\<lambda>x. byte x < 0x80 \<and> P (byte x)) d'"
    by simp_all
  have first: "ms s r (i, cp) = [(i + 1, cp)]"
    using step_ascii [OF dx x(1), of P cp] x(2) by (simp add: r)
  from dx have dr': "drop (Suc i) s = d' @ c # rest"
    by (metis drop_Suc list.sel(3) tl_drop)
  have star: "ms s (Star True r) (Suc i, cp) = map (\<lambda>k. (Suc i + k, cp)) (rev [0..<Suc (length d')])"
    using star_run [of s r P "Suc i" d' "c # rest" cp] r dr' run' c by simp
  have plus: "ms s (Plus True r) (i, cp) = map (\<lambda>k. (Suc i + k, cp)) (rev [0..<Suc (length d')])"
    using first star by (simp add: Plus_def del: ms.simps(10))
  have grp: "ms s (Grp n (Plus True r)) (i, cp)
      = map (\<lambda>k. (Suc i + k, cp(n \<mapsto> (i, Suc i + k)))) (rev [0..<Suc (length d')])"
    by (simp add: plus comp_def del: upt_Suc)
  let ?h = "\<lambda>k. ms s (Lit (byte c)) (Suc i + k, cp(n \<mapsto> (i, Suc i + k)))"
  have low: "?h k = []" if "k < length d'" for k
  proof -
    from drop_run_nth [OF dr' that] have "drop (Suc i + k) s = d' ! k # (drop (Suc k) d' @ c # rest)" .
    moreover from run' that have "byte (d' ! k) < 0x80" "P (byte (d' ! k))"
      by (simp_all add: list_all_length)
    moreover from this c have "byte (d' ! k) \<noteq> byte c"
      by auto
    ultimately show ?thesis
      by (simp add: step_ascii)
  qed
  have top: "?h (length d') = [(i + length d + 1, cp(n \<mapsto> (i, i + length d)))]"
    using drop_run_end [OF dr'] c d by (simp add: step_ascii [of _ s c rest])
  have "ms s (Cat (Grp n (Plus True r)) (Lit (byte c))) (i, cp) = concat (map ?h (rev [0..<Suc (length d')]))"
    by (simp add: grp comp_def del: upt_Suc ms.simps(2,10,11))
  also have "\<dots> = ?h (length d')"
    by (rule concat_only_top) (rule low)
  finally show ?thesis
    using top by simp
qed


lemma ms_digit_class: "ms s (Cls False [PerlD]) t = step s (fst t) is_digit (snd t)"
  by (cases t) (simp del: is_digit.simps)

lemma digits_ascii: "digits d \<Longrightarrow> list_all (\<lambda>x. byte x < 0x80 \<and> is_digit (byte x)) d"
  by (induction d) (auto simp: digits_def)

lemma role_mention_fails:
  "byte c < 0x80 \<Longrightarrow> byte c \<noteq> 38 \<Longrightarrow> FindStringSubmatchIndex patternRoleMention (CHR ''<'' # CHR ''@'' # c # t) = None"
  by (simp add: FindStringSubmatchIndex_anchored patternRoleMention_def Ch_def step_ascii [of _ _ c t] byte_def [of "CHR ''&''"])
     (simp add: step_def byte_def)

lemma user_mention_matches:
  assumes "d \<noteq> []" "digits d"
  shows "FindStringSubmatchIndex patternUserMention (''<@'' @ d @ ''>'') = Some [0, int (length d) + 3, 2, int (length d) + 2]"
    and "FindStringSubmatchIndex patternUserMention (''<@!'' @ d @ ''>'') = Some [0, int (length d) + 4, 3, int (length d) + 3]"
proof -
  define K where "K = Cat (Grp 1 (Plus True (Cls False [PerlD]))) (Lit (byte CHR ''>''))"
  have pat: "patternUserMention = Cat BeginText (Cat (Cat (Ch CHR ''<'') (Ch CHR ''@'')) (Cat (Quest True (Ch CHR ''!'')) K))"
    by (simp add: patternUserMention_def K_def Ch_def)
  from assms obtain x d' where d: "d = x # d'"
    by (cases d) auto
  with assms have x: "byte x < 0x80" "is_digit (byte x)"
    by (auto simp: digits_def)
  have gt: "byte CHR ''>'' < 0x80" "\<not> is_digit (byte CHR ''>'')"
    by (simp_all add: byte_def)
  have k2: "ms (CHR ''<'' # CHR ''@'' # d @ ''>'') K (i, cp) = [(2 + length d + 1, cp(1 \<mapsto> (2, 2 + length d)))]" if "i = 2" for i cp
    unfolding K_def that
    by (rule grp_plus_run_then_lit [where P = is_digit and rest = "[]"])
       (simp_all add: ms_digit_class assms digits_ascii gt del: is_digit.simps)
  have k3: "ms (CHR ''<'' # CHR ''@'' # CHR ''!'' # d @ ''>'') K (i, cp) = [(3 + length d + 1, cp(1 \<mapsto> (3, 3 + length d)))]" if "i = 3" for i cp
    unfolding K_def that
    by (rule grp_plus_run_then_lit [where P = is_digit and rest = "[]"])
       (simp_all add: ms_digit_class assms digits_ascii gt del: is_digit.simps)
  have k2': "ms (CHR ''<'' # CHR ''@'' # CHR ''!'' # d @ ''>'') K (i, cp) = []" if "i = 2" for i cp
    by (simp add: K_def Plus_def step_def byte_def that)
  have nk: "NumSubexp K = 1" "NumSubexp (Quest True (Lit 33)) = 0"
    by (simp_all add: K_def Plus_def Quest_def)
  have bang: "byte x \<noteq> 33"
    using x(2) by auto
  have q: "ms (CHR ''<'' # CHR ''@'' # d @ ''>'') (Quest True (Lit 33)) (i, cp) = [(2, cp)]" if "i = 2" for i cp
    using bang by (simp add: that Quest_def d step_ascii [of _ _ x "d' @ ''>''"] x)
  show "FindStringSubmatchIndex patternUserMention (''<@'' @ d @ ''>'') = Some [0, int (length d) + 3, 2, int (length d) + 2]"
    by (simp add: FindStringSubmatchIndex_anchored pat Ch_def step_def byte_def k2 q pair_of_def nk)
  show "FindStringSubmatchIndex patternUserMention (''<@!'' @ d @ ''>'') = Some [0, int (length d) + 4, 3, int (length d) + 3]"
    by (simp add: FindStringSubmatchIndex_anchored pat Ch_def Quest_def step_def byte_def k3 k2' pair_of_def nk)
qed


lemma single_leaf_parse:
  assumes sel: "select_rule (rules p) [] 0 0 src = Some (r, g)"
    and g: "index g 1 = Some (int (length src))" "g \<noteq> []"
    and act: "parser r \<lparr>match_str = src, groups = g\<rparr> = Some (leaf v)"
    and ne: "src \<noteq> []"
  shows "Parse p src = Some (Inr (Node RootNode [Node v []]))"
proof -
  let ?b = "\<lparr>node = [], matchEnd = 0, start = 0, end' = int (length src)\<rparr>"
  let ?st = "\<lparr>remainingParses = [?b], root = Node RootNode [], lastCapture = [], blockQuoteEnd = 0\<rparr>"
  let ?st' = "\<lparr>remainingParses = [], root = Node RootNode [Node v []], lastCapture = src, blockQuoteEnd = 0\<rparr>"
  have it: "iteration p src ?b (?st\<lparr>remainingParses := []\<rparr>) = Inr ?st'"
    using sel g act by (simp add: iteration_def slice_def leaf_def new_child_ref_def)
  have "parse_loop p src ?st = parse_loop p src ?st'"
    using ne by (intro parse_loop_turn [OF _ _ it]) simp_all
  also have "\<dots> = Some (Inr (Node RootNode [Node v []]))"
    by (simp add: parse_loop_done)
  finally show ?thesis
    using ne by (simp add: Parse_def)
qed

text \<open>
  C10. With mentions enabled, for every non-empty digit string \<open>d\<close> the sources
  \<open><@d>\<close> and \<open><@!d>\<close> both parse to a root whose only child is the user mention with
  ID \<open>d\<close>, so the two trees are equal. This holds for the nil configuration too.
\<close>

theorem user_mention_exclamation_optional:
  assumes "d \<noteq> []" "digits d" "EnableMentions opts"
  shows "Parse (NewParser (Some opts)) (''<@'' @ d @ ''>'') = Some (Inr (Node RootNode [Node (UserMentionNode d) []]))
       \<and> Parse (NewParser (Some opts)) (''<@!'' @ d @ ''>'') = Some (Inr (Node RootNode [Node (UserMentionNode d) []]))
       \<and> Parse (NewParser None) (''<@'' @ d @ ''>'') = Some (Inr (Node RootNode [Node (UserMentionNode d) []]))
       \<and> Parse (NewParser None) (''<@!'' @ d @ ''>'') = Some (Inr (Node RootNode [Node (UserMentionNode d) []]))"
proof -
  from assms obtain x d' where d: "d = x # d'"
    by (cases d) auto
  with assms have x: "byte x < 0x80" "byte x \<noteq> 38"
    by (auto simp: digits_def)
  have bang: "byte CHR ''!'' < 0x80" "byte CHR ''!'' \<noteq> 38"
    by (simp_all add: byte_def)
  note m = user_mention_matches [OF assms(1,2), simplified]
  have parse: "Parse (NewParser (Some o')) (''<@'' @ d @ ''>'') = Some (Inr (Node RootNode [Node (UserMentionNode d) []]))
       \<and> Parse (NewParser (Some o')) (''<@!'' @ d @ ''>'') = Some (Inr (Node RootNode [Node (UserMentionNode d) []]))"
    if en: "EnableMentions o'" for o'
  proof -
    have sel1: "select_rule (rules (NewParser (Some o'))) [] 0 0 (''<@'' @ d @ ''>'')
        = Some (userMentionRule, [0, int (length d) + 3, 2, int (length d) + 2])"
      using en m(1) role_mention_fails [OF x, of "d' @ ''>''"] before_mentions_fail [of "d @ ''>''"]
      by (simp add: NewParser_def Let_def rule_defs d)
    have sel2: "select_rule (rules (NewParser (Some o'))) [] 0 0 (''<@!'' @ d @ ''>'')
        = Some (userMentionRule, [0, int (length d) + 4, 3, int (length d) + 3])"
      using en m(2) role_mention_fails [OF bang, of "d @ ''>''"] before_mentions_fail [of "CHR ''!'' # d @ ''>''"]
      by (simp add: NewParser_def Let_def rule_defs)
    have "Parse (NewParser (Some o')) (''<@'' @ d @ ''>'') = Some (Inr (Node RootNode [Node (UserMentionNode d) []]))"
      by (rule single_leaf_parse [OF sel1])
         (simp_all add: index_def userMentionRule_def simple_rule_def group_def slice_def)
    moreover have "Parse (NewParser (Some o')) (''<@!'' @ d @ ''>'') = Some (Inr (Node RootNode [Node (UserMentionNode d) []]))"
      by (rule single_leaf_parse [OF sel2])
         (simp_all add: index_def userMentionRule_def simple_rule_def group_def slice_def)
    ultimately show ?thesis by simp
  qed
  have nil: "NewParser None = NewParser (Some DefaultParserOptions)"
    by (simp add: NewParser_def)
  have "EnableMentions DefaultParserOptions"
    by (simp add: DefaultParserOptions_def)
  from parse [OF assms(3)] parse [OF this] show ?thesis
    by (simp add: nil)
qed

theorem user_mention_exclamation_optional_witness:
  "digits ''1234'' \<and> EnableMentions DefaultParserOptions
   \<and> Parse (NewParser (Some DefaultParserOptions)) ''<@1234>'' = Some (Inr (Node RootNode [Node (UserMentionNode ''1234'') []]))
   \<and> Parse (NewParser (Some DefaultParserOptions)) ''<@!1234>'' = Some (Inr (Node RootNode [Node (UserMentionNode ''1234'') []]))"
proof -
  have d: "digits ''1234''"
    by (simp add: digits_def byte_def)
  have e: "EnableMentions DefaultParserOptions"
    by (simp add: DefaultParserOptions_def)
  from user_mention_exclamation_optional [OF _ d e] d e show ?thesis
    by simp
qed

section \<open>Omitting the options\<close>

text \<open>
  C8. \<open>NewParser\<close> called with a nil pointer builds the rule table of the default
  options, which enable block quotes and mentions and disable masked links and forum
  markdown; so both parsers parse every source alike.
\<close>

theorem NewParser_nil_is_default:
  "NewParser None = NewParser (Some DefaultParserOptions)
   \<and> EnableBlockQuote DefaultParserOptions \<and> EnableMentions DefaultParserOptions
   \<and> \<not> EnableMaskedLinks DefaultParserOptions \<and> \<not> EnableForumMarkdown DefaultParserOptions
   \<and> Parse (NewParser None) source = Parse (NewParser (Some DefaultParserOptions)) source"
  by (simp add: NewParser_def DefaultParserOptions_def)

theorem NewParser_nil_is_default_witness:
  "Parse (NewParser None) ''**hi**'' = Parse (NewParser (Some DefaultParserOptions)) ''**hi**''
   \<and> Parse (NewParser None) ''**hi**'' = Some (Inr (Node RootNode [Node BoldNode [Node (TextNode ''hi'') []]]))"
proof -
  have "Parse (NewParser None) ''**hi**'' = Some (Inr (Node RootNode [Node BoldNode [Node (TextNode ''hi'') []]]))"
    by code_simp
  with NewParser_nil_is_default [of "''**hi**''"] show ?thesis
    by simp
qed

end
